theory Spec2Isabelle
  imports Complex_Main "HOL-Library.Log_Nat"
begin

section \<open>The chatbot service: intent matching over a pattern catalog\<close>

text \<open>
  A shallow embedding of \<^verbatim>\<open>src/chatbot-ui/src/services/chatbotService.js\<close>.
  JavaScript strings are modelled as lists of code units (\<open>string\<close>, with the code units
  below 256), and the calls to \<^verbatim>\<open>console\<close> are left out: they do not change what
  the functions return. A JavaScript number is an IEEE 754 double; it is modelled by the
  rational number it denotes, and every arithmetic operation of the source rounds its
  exact result to the nearest double.
\<close>

subsection \<open>IEEE 754 doubles\<close>

text \<open>
  \<open>binade x\<close> is the exponent \<open>e\<close> with \<open>2\<^sup>e \<le> x < 2\<^sup>e\<^sup>+\<^sup>1\<close>, for a positive \<open>x\<close>. \<open>fl x\<close> is
  the double nearest to \<open>x\<close>: the multiple of \<open>2\<^sup>e\<^sup>-\<^sup>5\<^sup>2\<close> nearest to it, the one with an
  even significand when two are equally near. The range of the exponent is not modelled:
  the numbers of this program are 0 or between \<open>2\<^sup>-\<^sup>1\<^sup>0\<^sup>2\<^sup>2\<close> and \<open>2\<^sup>1\<^sup>0\<^sup>2\<^sup>4\<close>, where
  nothing overflows and nothing is subnormal. A literal of the source such as \<open>0.7\<close> is
  \<open>fl (7 / 10)\<close>.
\<close>

definition binade :: "rat \<Rightarrow> int" where
  "binade x =
     (if 1 \<le> x then bitlen \<lfloor>x\<rfloor> - 1
      else (let k = bitlen \<lfloor>1 / x\<rfloor> - 1
            in if x = 2 powi (- k) then - k else - k - 1))"

definition round_half_even :: "rat \<Rightarrow> int" where
  "round_half_even q =
     (let n = \<lfloor>q\<rfloor>; r = q - of_int n
      in if r < 1 / 2 then n else if 1 / 2 < r then n + 1
         else if even n then n else n + 1)"

definition fl :: "rat \<Rightarrow> rat" where
  "fl x =
     (if x = 0 then 0
      else (let ulp = 2 powi (binade \<bar>x\<bar> - 52)
            in sgn x * (of_int (round_half_even (\<bar>x\<bar> / ulp)) * ulp)))"

text \<open>The operations \<^verbatim>\<open>+\<close>, \<^verbatim>\<open>-\<close>, \<^verbatim>\<open>*\<close> and \<^verbatim>\<open>/\<close> of JavaScript on two doubles.\<close>

definition fadd :: "rat \<Rightarrow> rat \<Rightarrow> rat" where
  "fadd a b = fl (a + b)"

definition fsub :: "rat \<Rightarrow> rat \<Rightarrow> rat" where
  "fsub a b = fl (a - b)"

definition fmul :: "rat \<Rightarrow> rat \<Rightarrow> rat" where
  "fmul a b = fl (a * b)"

definition fdiv :: "rat \<Rightarrow> rat \<Rightarrow> rat" where
  "fdiv a b = fl (a / b)"

subsection \<open>Levenshtein distance: the matrix of \<open>_calculateLevenshteinDistance\<close>\<close>

text \<open>
  The matrix has one row per prefix of \<open>str2\<close> and one column per prefix of \<open>str1\<close>.
  The source fills it with \<^verbatim>\<open>null\<close>; a \<^verbatim>\<open>null\<close> cell would count as 0 in the
  additions, so the model fills it with 0.
\<close>

type_synonym matrix = "nat list list"

definition new_matrix :: "nat \<Rightarrow> nat \<Rightarrow> matrix" where
  "new_matrix rows cols = replicate rows (replicate cols 0)"

definition cell :: "matrix \<Rightarrow> nat \<Rightarrow> nat \<Rightarrow> nat" where
  "cell m j i = m ! j ! i"

definition set_cell :: "matrix \<Rightarrow> nat \<Rightarrow> nat \<Rightarrow> nat \<Rightarrow> matrix" where
  "set_cell m j i v = m[j := (m ! j)[i := v]]"

definition substitutionCost :: "'a list \<Rightarrow> 'a list \<Rightarrow> nat \<Rightarrow> nat \<Rightarrow> nat" where
  "substitutionCost str1 str2 i j = (if str1 ! (i - 1) = str2 ! (j - 1) then 0 else 1)"

definition fill_cell :: "'a list \<Rightarrow> 'a list \<Rightarrow> nat \<Rightarrow> nat \<Rightarrow> matrix \<Rightarrow> matrix" where
  "fill_cell str1 str2 j i m =
     set_cell m j i
       (min (min (cell m j (i - 1) + 1) (cell m (j - 1) i + 1))
            (cell m (j - 1) (i - 1) + substitutionCost str1 str2 i j))"

definition fill_row :: "'a list \<Rightarrow> 'a list \<Rightarrow> nat \<Rightarrow> matrix \<Rightarrow> matrix" where
  "fill_row str1 str2 j m = fold (fill_cell str1 str2 j) [1..<Suc (length str1)] m"

definition calculateLevenshteinDistance :: "'a list \<Rightarrow> 'a list \<Rightarrow> nat" where
  "calculateLevenshteinDistance str1 str2 =
     (let matrix = new_matrix (length str2 + 1) (length str1 + 1);
          matrix = fold (\<lambda>i m. set_cell m 0 i i) [0..<Suc (length str1)] matrix;
          matrix = fold (\<lambda>j m. set_cell m j 0 j) [0..<Suc (length str2)] matrix;
          matrix = fold (fill_row str1 str2) [1..<Suc (length str2)] matrix
      in cell matrix (length str2) (length str1))"

subsection \<open>What the matrix is compared with\<close>

text \<open>
  One edit: a single character inserted, deleted or substituted, at any position of the
  string. \<open>(edit_step ^^ n) a b\<close> says that \<open>n\<close> edits, one after the other, turn \<open>a\<close>
  into \<open>b\<close>.
\<close>

inductive edit_step :: "'a list \<Rightarrow> 'a list \<Rightarrow> bool" where
  insertion: "edit_step xs (c # xs)"
| deletion: "edit_step (c # xs) xs"
| substitution: "edit_step (c # xs) (d # xs)"
| later: "edit_step xs ys \<Longrightarrow> edit_step (c # xs) (c # ys)"

text \<open>The textbook recurrence, on the strings read from the front.\<close>

fun lev :: "'a list \<Rightarrow> 'a list \<Rightarrow> nat" where
  "lev [] ys = length ys"
| "lev (x # xs) [] = Suc (length xs)"
| "lev (x # xs) (y # ys) =
     min (min (lev xs (y # ys) + 1) (lev (x # xs) ys + 1))
         (lev xs ys + (if x = y then 0 else 1))"

text \<open>The value the matrix should hold at column \<open>i\<close> of row \<open>j\<close>.\<close>

fun prefix_distance :: "'a list \<Rightarrow> 'a list \<Rightarrow> nat \<Rightarrow> nat \<Rightarrow> nat" where
  "prefix_distance s1 s2 0 j = j"
| "prefix_distance s1 s2 (Suc i) 0 = Suc i"
| "prefix_distance s1 s2 (Suc i) (Suc j) =
     min (min (prefix_distance s1 s2 i (Suc j) + 1) (prefix_distance s1 s2 (Suc i) j + 1))
         (prefix_distance s1 s2 i j + (if s1 ! i = s2 ! j then 0 else 1))"

definition well_formed :: "nat \<Rightarrow> nat \<Rightarrow> matrix \<Rightarrow> bool" where
  "well_formed rows cols m \<longleftrightarrow> length m = rows \<and> (\<forall>r \<in> set m. length r = cols)"

definition filled :: "'a list \<Rightarrow> 'a list \<Rightarrow> nat \<Rightarrow> nat \<Rightarrow> matrix \<Rightarrow> bool" where
  "filled s1 s2 j k m \<longleftrightarrow>
     well_formed (Suc (length s2)) (Suc (length s1)) m \<and>
     (\<forall>j' \<le> length s2. \<forall>i' \<le> length s1.
        (j' = 0 \<or> i' = 0 \<or> j' < j \<or> (j' = j \<and> i' < k)) \<longrightarrow>
        cell m j' i' = prefix_distance s1 s2 i' j')"

subsection \<open>Strings\<close>

text \<open>
  \<^verbatim>\<open>toLowerCase\<close>, \<^verbatim>\<open>trim\<close>, \<^verbatim>\<open>split(' ')\<close> and \<^verbatim>\<open>includes\<close> on code units
  below 256: the capital letters are \<open>A\<close> to \<open>Z\<close> and U+00C0 to U+00DE without U+00D7;
  the white space that \<^verbatim>\<open>trim\<close> removes is U+0009 to U+000D, U+0020 and U+00A0.
\<close>

definition lower_char :: "char \<Rightarrow> char" where
  "lower_char c =
     (let n = of_char c :: nat
      in if (65 \<le> n \<and> n \<le> 90) \<or> (192 \<le> n \<and> n \<le> 222 \<and> n \<noteq> 215)
         then char_of (n + 32) else c)"

definition toLowerCase :: "string \<Rightarrow> string" where
  "toLowerCase s = map lower_char s"

definition is_whitespace :: "char \<Rightarrow> bool" where
  "is_whitespace c = (let n = of_char c :: nat in (9 \<le> n \<and> n \<le> 13) \<or> n = 32 \<or> n = 160)"

definition trim :: "string \<Rightarrow> string" where
  "trim s = rev (dropWhile is_whitespace (rev (dropWhile is_whitespace s)))"

fun split :: "char \<Rightarrow> string \<Rightarrow> string list" where
  "split sep [] = [[]]"
| "split sep (c # cs) =
     (if c = sep then [] # split sep cs
      else (case split sep cs of w # ws \<Rightarrow> (c # w) # ws | [] \<Rightarrow> [[c]]))"

text \<open>\<^verbatim>\<open>s.split(' ').filter(word => word.length > 0)\<close>\<close>

definition words_of :: "string \<Rightarrow> string list" where
  "words_of s = filter (\<lambda>word. length word > 0) (split CHR '' '' s)"

fun starts_with :: "string \<Rightarrow> string \<Rightarrow> bool" where
  "starts_with s [] = True"
| "starts_with [] (k # ks) = False"
| "starts_with (c # cs) (k # ks) = (c = k \<and> starts_with cs ks)"

fun includes_str :: "string \<Rightarrow> string \<Rightarrow> bool" where
  "includes_str [] keyword = starts_with [] keyword"
| "includes_str (c # cs) keyword = (starts_with (c # cs) keyword \<or> includes_str cs keyword)"

subsection \<open>Similarity of two words\<close>

definition calculateStringSimilarity :: "string \<Rightarrow> string \<Rightarrow> rat" where
  "calculateStringSimilarity str1 str2 =
     (if str1 = [] \<or> str2 = [] then 0
      else let maxLength = max (length str1) (length str2)
      in if maxLength = 0 then 1
         else let distance = calculateLevenshteinDistance str1 str2
         in fsub 1 (fdiv (of_nat distance) (of_nat maxLength)))"

subsection \<open>Word order\<close>

definition medicalKeywords :: "string list" where
  "medicalKeywords = [''cuts'', ''fever'', ''headache'', ''pain'', ''treatment'', ''cure'']"

text \<open>
  The inner loop of \<open>_calculateWordOrderSimilarity\<close>: the best similarity of the query
  word and the index of the first pattern word that reaches it (\<open>-1\<close>: none).
\<close>

definition best_match_step :: "string \<Rightarrow> string list \<Rightarrow> nat \<Rightarrow> rat \<times> int \<Rightarrow> rat \<times> int" where
  "best_match_step queryWord patternWords j best =
     (let similarity = calculateStringSimilarity queryWord (patternWords ! j)
      in if similarity > fst best then (similarity, int j) else best)"

definition best_match_word :: "string \<Rightarrow> string list \<Rightarrow> rat \<times> int" where
  "best_match_word queryWord patternWords =
     fold (best_match_step queryWord patternWords) [0..<length patternWords] (0, -1)"

definition has_medical_keyword :: "string \<Rightarrow> string \<Rightarrow> bool" where
  "has_medical_keyword queryWord patternWord =
     list_ex (\<lambda>keyword. includes_str (toLowerCase queryWord) keyword \<or>
                         includes_str (toLowerCase patternWord) keyword) medicalKeywords"

record order_state =
  matchCount :: nat
  orderScore :: rat
  keywordMatches :: nat

definition order_step :: "string list \<Rightarrow> string list \<Rightarrow> nat \<Rightarrow> order_state \<Rightarrow> order_state" where
  "order_step queryWords patternWords i st =
     (let queryWord = queryWords ! i;
          (bestMatchScore, bestMatchIndex) = best_match_word queryWord patternWords
      in if bestMatchScore > fl (6 / 10) then
           (let positionDiff = \<bar>int i - bestMatchIndex\<bar>
            in \<lparr>matchCount = matchCount st + 1,
                orderScore = fadd (orderScore st)
                  (fsub 1 (fdiv (of_int positionDiff)
                             (of_nat (max (length queryWords) (length patternWords))))),
                keywordMatches =
                  (if has_medical_keyword queryWord (patternWords ! nat bestMatchIndex)
                   then keywordMatches st + 1 else keywordMatches st)\<rparr>)
         else st)"

definition calculateWordOrderSimilarity :: "string list \<Rightarrow> string list \<Rightarrow> rat" where
  "calculateWordOrderSimilarity queryWords patternWords =
     (if length queryWords = 0 \<or> length patternWords = 0 then 0
      else let st = fold (order_step queryWords patternWords) [0..<length queryWords]
                      \<lparr>matchCount = 0, orderScore = 0, keywordMatches = 0\<rparr>;
               baseScore = (if matchCount st > 0
                            then fdiv (orderScore st) (of_nat (matchCount st)) else 0);
               keywordBonus = fmul (of_nat (keywordMatches st)) (fl (2 / 10))
           in min 1 (fadd baseScore keywordBonus))"

subsection \<open>The score of one pattern and of one intent\<close>

definition bestWordScore :: "string \<Rightarrow> string list \<Rightarrow> rat" where
  "bestWordScore queryWord patternWords =
     fold (\<lambda>patternWord best. max best (calculateStringSimilarity queryWord patternWord))
       patternWords 0"

definition word_step :: "string list \<Rightarrow> string \<Rightarrow> rat \<times> nat \<Rightarrow> rat \<times> nat" where
  "word_step patternWords queryWord acc =
     (let best = bestWordScore queryWord patternWords
      in (fadd (fst acc) best, if best > fl (6 / 10) then snd acc + 1 else snd acc))"

text \<open>
  The body of the loop over the patterns of an intent, for a pattern that is a string.
  The source divides by \<open>queryWords.length\<close>; \<open>findMatchingIntent\<close> calls it with at least
  one query word (\<open>words_of_trim_nonempty\<close> below). The sum of the four weighted scores is
  evaluated from left to right, as the source writes it.
\<close>

definition patternScore :: "string \<Rightarrow> string list \<Rightarrow> string \<Rightarrow> rat" where
  "patternScore normalizedQuery queryWords pattern =
     (let normalizedPattern = toLowerCase pattern;
          patternWords = words_of normalizedPattern;
          exactMatchScore = (if normalizedQuery = normalizedPattern then 1 else 0);
          wordOrderScore = calculateWordOrderSimilarity queryWords patternWords;
          (wordSimilarityScore, matchedWords) = fold (word_step patternWords) queryWords (0, 0);
          wordSimilarityScore = fdiv wordSimilarityScore (of_nat (length queryWords))
      in fdiv
           (fadd
              (fadd
                 (fadd (fmul exactMatchScore 1) (fmul wordSimilarityScore (fl (7 / 10))))
                 (fmul wordOrderScore (fl (6 / 10))))
              (fmul (fdiv (of_nat matchedWords)
                       (of_nat (max (length queryWords) (length patternWords))))
                 (fl (9 / 10))))
           (fl (32 / 10)))"

subsection \<open>JavaScript values and errors\<close>

text \<open>
  The values a catalog or a query can be: what JSON gives, and \<^verbatim>\<open>undefined\<close> and
  \<^verbatim>\<open>NaN\<close>. An object is its list of properties; the first entry of a name is the one
  that is read.
\<close>

datatype jsval =
    JUndefined
  | JNull
  | JBool bool
  | JNum rat
  | JNaN
  | JStr string
  | JArr "jsval list"
  | JObj "(string \<times> jsval) list"

fun truthy :: "jsval \<Rightarrow> bool" where
  "truthy JUndefined = False"
| "truthy JNull = False"
| "truthy (JBool b) = b"
| "truthy (JNum n) = (n \<noteq> 0)"
| "truthy JNaN = False"
| "truthy (JStr s) = (s \<noteq> [])"
| "truthy (JArr xs) = True"
| "truthy (JObj kvs) = True"

fun isArray :: "jsval \<Rightarrow> bool" where
  "isArray (JArr xs) = True"
| "isArray v = False"

fun elements :: "jsval \<Rightarrow> jsval list" where
  "elements (JArr xs) = xs"
| "elements v = []"

fun is_string :: "jsval \<Rightarrow> bool" where
  "is_string (JStr s) = True"
| "is_string v = False"

fun chars :: "jsval \<Rightarrow> string" where
  "chars (JStr s) = s"
| "chars v = []"

fun nullish :: "jsval \<Rightarrow> bool" where
  "nullish JUndefined = True"
| "nullish JNull = True"
| "nullish v = False"

text \<open>
  Reading one of the properties \<open>intents\<close>, \<open>tag\<close>, \<open>patterns\<close>, \<open>responses\<close>: only an
  object has them. Reading a property of \<^verbatim>\<open>null\<close> or \<^verbatim>\<open>undefined\<close> raises a TypeError;
  the callers test \<open>nullish\<close> first and raise it.
\<close>

fun get_prop :: "jsval \<Rightarrow> string \<Rightarrow> jsval" where
  "get_prop (JObj kvs) name = (case map_of kvs name of Some v \<Rightarrow> v | None \<Rightarrow> JUndefined)"
| "get_prop v name = JUndefined"

text \<open>\<^verbatim>\<open>xs[i]\<close>: \<^verbatim>\<open>undefined\<close> outside the array.\<close>

definition js_nth :: "jsval list \<Rightarrow> int \<Rightarrow> jsval" where
  "js_nth xs i = (if 0 \<le> i \<and> i < int (length xs) then xs ! nat i else JUndefined)"

datatype js_error =
    TypeError string
  | ChatbotError string
  | IntentLoadError string
  | IntentMatchError string
  | ResponseGenerationError string

fun message :: "js_error \<Rightarrow> string" where
  "message (TypeError m) = m"
| "message (ChatbotError m) = m"
| "message (IntentLoadError m) = m"
| "message (IntentMatchError m) = m"
| "message (ResponseGenerationError m) = m"

fun instanceofChatbotError :: "js_error \<Rightarrow> bool" where
  "instanceofChatbotError (TypeError m) = False"
| "instanceofChatbotError e = True"

fun instanceofIntentMatchError :: "js_error \<Rightarrow> bool" where
  "instanceofIntentMatchError (IntentMatchError m) = True"
| "instanceofIntentMatchError e = False"

text \<open>
  The TypeError of the engine (V8) for \<open>v.name\<close> with \<open>v\<close> null or undefined, as in
  \<^verbatim>\<open>Cannot read properties of null (reading 'tag')\<close>.
\<close>

definition cannot_read :: "jsval \<Rightarrow> string \<Rightarrow> js_error" where
  "cannot_read v name =
     TypeError (''Cannot read properties of '' @ (if v = JNull then ''null'' else ''undefined'')
                @ '' (reading '' @ [CHR 0x27] @ name @ [CHR 0x27] @ '')'')"

subsection \<open>The service\<close>

datatype metrics_event =
    RecordError string string
  | RecordIntentMatch jsval
  | RecordResponseTime

text \<open>
  The state of a \<open>ChatbotService\<close>: the installed catalog, what the logger was called
  with, and what the metrics collaborator (when there is one) was called with. The
  durations given to \<open>recordResponseTime\<close> are not modelled.
\<close>

record service =
  intents :: jsval
  logged :: "(string \<times> js_error) list"
  metrics :: "metrics_event list option"

definition record_metric :: "metrics_event \<Rightarrow> service \<Rightarrow> service" where
  "record_metric ev s = s\<lparr>metrics := map_option (\<lambda>evs. evs @ [ev]) (metrics s)\<rparr>"

subsection \<open>\<open>loadIntents\<close>\<close>

definition validate_intent :: "jsval \<Rightarrow> js_error + unit" where
  "validate_intent intent =
     (if nullish intent then Inl (cannot_read intent ''tag'')
      else if \<not> truthy (get_prop intent ''tag'') \<or> \<not> truthy (get_prop intent ''patterns'')
              \<or> \<not> truthy (get_prop intent ''responses'')
      then Inl (IntentLoadError ''Invalid intent structure: missing required properties'')
      else if \<not> isArray (get_prop intent ''patterns'') \<or> \<not> isArray (get_prop intent ''responses'')
      then Inl (IntentLoadError
                 ''Invalid intent structure: patterns and responses must be arrays'')
      else Inr ())"

fun validate_intents :: "jsval list \<Rightarrow> js_error + unit" where
  "validate_intents [] = Inr ()"
| "validate_intents (intent # rest) =
     (case validate_intent intent of Inl e \<Rightarrow> Inl e | Inr u \<Rightarrow> validate_intents rest)"

text \<open>The \<^verbatim>\<open>try\<close> block: the state it returns is the state when it ends or throws.\<close>

definition loadIntents_try :: "jsval \<Rightarrow> service \<Rightarrow> (js_error + unit) \<times> service" where
  "loadIntents_try intentsData s =
     (if \<not> truthy intentsData then (Inl (IntentLoadError ''Intent data is missing''), s)
      else if \<not> truthy (get_prop intentsData ''intents'')
      then (Inl (IntentLoadError ''Invalid intent data structure: missing intents property''), s)
      else if \<not> isArray (get_prop intentsData ''intents'')
      then (Inl (IntentLoadError ''Invalid intent data structure: intents must be an array''), s)
      else if length (elements (get_prop intentsData ''intents'')) = 0
      then (Inl (IntentLoadError ''Intent data is empty''), s)
      else (case validate_intents (elements (get_prop intentsData ''intents'')) of
              Inl e \<Rightarrow> (Inl e, s)
            | Inr u \<Rightarrow> (Inr (), s\<lparr>intents := get_prop intentsData ''intents''\<rparr>)))"

definition loadIntents :: "jsval \<Rightarrow> service \<Rightarrow> (js_error + unit) \<times> service" where
  "loadIntents intentsData s =
     (case loadIntents_try intentsData s of
        (Inr u, s') \<Rightarrow> (Inr (), s')
      | (Inl error, s') \<Rightarrow>
          (let s1 = s'\<lparr>logged := logged s' @ [(''Error loading intents:'', error)]\<rparr>;
               wrappedError =
                 (if instanceofChatbotError error then error
                  else IntentLoadError (''Failed to load intent data: '' @ message error));
               s2 = record_metric (RecordError ''INTENT_LOAD_ERROR'' (message wrappedError)) s1
           in (Inl wrappedError, s2)))"

text \<open>The constructor, with the logger and the metrics collaborator already chosen.\<close>

definition new_service :: "metrics_event list option \<Rightarrow> service" where
  "new_service m = \<lparr>intents = JArr [], logged = [], metrics = m\<rparr>"

subsection \<open>\<open>findMatchingIntent\<close>\<close>

record best_match =
  match_intent :: jsval
  match_score :: rat

definition intentScore :: "string \<Rightarrow> string list \<Rightarrow> jsval list \<Rightarrow> rat" where
  "intentScore normalizedQuery queryWords patterns =
     fold (\<lambda>pattern score.
             if \<not> is_string pattern then score
             else max score (patternScore normalizedQuery queryWords (chars pattern)))
       patterns 0"

fun match_intents ::
  "string \<Rightarrow> string list \<Rightarrow> jsval list \<Rightarrow> best_match \<Rightarrow> js_error + best_match" where
  "match_intents normalizedQuery queryWords [] bestMatch = Inr bestMatch"
| "match_intents normalizedQuery queryWords (intent # rest) bestMatch =
     (if nullish intent then Inl (cannot_read intent ''patterns'')
      else if \<not> truthy (get_prop intent ''patterns'') \<or> \<not> isArray (get_prop intent ''patterns'')
      then match_intents normalizedQuery queryWords rest bestMatch
      else (let score = intentScore normalizedQuery queryWords
                          (elements (get_prop intent ''patterns''))
            in match_intents normalizedQuery queryWords rest
                 (if score > match_score bestMatch
                  then \<lparr>match_intent = intent, match_score = score\<rparr>
                  else bestMatch)))"

text \<open>
  The \<^verbatim>\<open>try\<close> block up to the best match: \<open>None\<close> is the early \<^verbatim>\<open>return null\<close>.
\<close>

definition find_best_match :: "jsval \<Rightarrow> service \<Rightarrow> js_error + best_match option" where
  "find_best_match query s =
     (if \<not> truthy query then Inr None
      else if \<not> is_string query then Inl (IntentMatchError ''Query must be a string'')
      else if \<not> truthy (intents s) \<or> \<not> isArray (intents s)
              \<or> length (elements (intents s)) = 0
      then Inl (IntentMatchError ''No intents available for matching'')
      else (let normalizedQuery = trim (toLowerCase (chars query))
            in if length normalizedQuery = 0 then Inr None
               else (let queryWords = words_of normalizedQuery
                     in case match_intents normalizedQuery queryWords (elements (intents s))
                               \<lparr>match_intent = JNull, match_score = 0\<rparr> of
                          Inl e \<Rightarrow> Inl e
                        | Inr bestMatch \<Rightarrow> Inr (Some bestMatch))))"

definition findMatchingIntent :: "jsval \<Rightarrow> service \<Rightarrow> js_error + jsval" where
  "findMatchingIntent query s =
     (case find_best_match query s of
        Inr None \<Rightarrow> Inr JNull
      | Inr (Some bestMatch) \<Rightarrow>
          Inr (if match_score bestMatch \<ge> fl (25 / 100) then match_intent bestMatch
               else JNull)
      | Inl error \<Rightarrow>
          Inl (if instanceofChatbotError error then error
               else IntentMatchError (''Failed to match intent: '' @ message error)))"

subsection \<open>\<open>generateResponse\<close>\<close>

record response =
  answer :: jsval
  intent :: jsval
  error :: jsval

definition empty_query_answer :: string where
  "empty_query_answer =
     ''I'm sorry, I don't understand empty queries. Please ask a medical question.''"

definition no_match_answer :: string where
  "no_match_answer =
     ''I'm sorry, I don't understand that medical query. Could you please rephrase it or ask about a specific medical condition?''"

definition match_error_answer :: string where
  "match_error_answer =
     ''Sorry, there was an error matching your query. Please try rephrasing your question.''"

definition internal_error_answer :: string where
  "internal_error_answer =
     ''Sorry, I encountered an error processing your query. Please try again.''"

text \<open>\<^verbatim>\<open>Math.floor(Math.random() * n)\<close>, with \<open>random\<close> the value of \<^verbatim>\<open>Math.random()\<close>.\<close>

definition randomIndex :: "rat \<Rightarrow> nat \<Rightarrow> int" where
  "randomIndex random n = \<lfloor>fmul random (of_nat n)\<rfloor>"

text \<open>
  The \<^verbatim>\<open>try\<close> block. \<open>toText\<close> is the conversion of a value to a string that the
  template literals of the two error messages apply to the tag.
\<close>

definition generateResponse_try ::
  "(jsval \<Rightarrow> string) \<Rightarrow> jsval \<Rightarrow> rat \<Rightarrow> service \<Rightarrow> (js_error + response) \<times> service" where
  "generateResponse_try toText query random s =
     (if \<not> truthy query
      then (Inr \<lparr>answer = JStr empty_query_answer, intent = JNull,
                 error = JStr ''EMPTY_QUERY''\<rparr>, s)
      else if \<not> is_string query
      then (Inl (ResponseGenerationError ''Query must be a string''), s)
      else (case findMatchingIntent query s of
              Inl e \<Rightarrow> (Inl e, s)
            | Inr matchedIntent \<Rightarrow>
                if \<not> truthy matchedIntent
                then (Inr \<lparr>answer = JStr no_match_answer, intent = JNull,
                           error = JStr ''NO_MATCH''\<rparr>,
                      record_metric (RecordIntentMatch JNull) s)
                else if \<not> truthy (get_prop matchedIntent ''responses'')
                        \<or> \<not> isArray (get_prop matchedIntent ''responses'')
                        \<or> length (elements (get_prop matchedIntent ''responses'')) = 0
                then (Inl (ResponseGenerationError
                        (''No responses available for intent: ''
                         @ toText (get_prop matchedIntent ''tag''))), s)
                else (let responses = elements (get_prop matchedIntent ''responses'');
                          response = js_nth responses (randomIndex random (length responses))
                      in if \<not> is_string response \<or> length (trim (chars response)) = 0
                         then (Inl (ResponseGenerationError
                                 (''Invalid response for intent: ''
                                  @ toText (get_prop matchedIntent ''tag''))), s)
                         else (let s1 = record_metric
                                          (RecordIntentMatch (get_prop matchedIntent ''tag'')) s;
                                   result = \<lparr>answer = response,
                                             intent = get_prop matchedIntent ''tag'',
                                             error = JNull\<rparr>;
                                   s2 = record_metric RecordResponseTime s1
                               in (Inr result, s2)))))"

text \<open>
  With the \<^verbatim>\<open>catch\<close> and the \<^verbatim>\<open>finally\<close> blocks: \<open>Inl\<close> would be an exception that
  reaches the caller.
\<close>

definition generateResponse ::
  "(jsval \<Rightarrow> string) \<Rightarrow> jsval \<Rightarrow> rat \<Rightarrow> service \<Rightarrow> (js_error + response) \<times> service" where
  "generateResponse toText query random s =
     (case generateResponse_try toText query random s of
        (Inr result, s') \<Rightarrow> (Inr result, record_metric RecordResponseTime s')
      | (Inl err, s') \<Rightarrow>
          (let s1 = record_metric
                      (RecordError
                         (if instanceofIntentMatchError err then ''INTENT_MATCH_ERROR''
                          else ''INTERNAL_ERROR'')
                         (message err)) s'
           in (Inr (if instanceofIntentMatchError err
                    then \<lparr>answer = JStr match_error_answer, intent = JNull,
                          error = JStr ''INTENT_MATCH_ERROR''\<rparr>
                    else \<lparr>answer = JStr internal_error_answer, intent = JNull,
                          error = JStr ''INTERNAL_ERROR''\<rparr>),
               record_metric RecordResponseTime s1)))"

subsection \<open>A small catalog\<close>

definition cuts_intent :: jsval where
  "cuts_intent =
     JObj [(''tag'', JStr ''Cuts''),
           (''patterns'', JArr [JStr ''How to cure Cuts?'']),
           (''responses'', JArr [JStr ''Wash the cut properly'', JStr '' ''])]"

definition sample_service :: service where
  "sample_service = \<lparr>intents = JArr [cuts_intent], logged = [], metrics = Some []\<rparr>"

text \<open>An entry one of whose required properties (\<open>tag\<close>, \<open>patterns\<close>, \<open>responses\<close>) is
  missing or falsy: what the first test of the validation loop rejects.\<close>

definition missing_required :: "jsval \<Rightarrow> bool" where
  "missing_required entry \<longleftrightarrow>
     \<not> truthy (get_prop entry ''tag'') \<or> \<not> truthy (get_prop entry ''patterns'')
     \<or> \<not> truthy (get_prop entry ''responses'')"

text \<open>The result that the \<^verbatim>\<open>catch\<close> block of \<open>generateResponse\<close> gives for an error
  that is not an \<open>IntentMatchError\<close>.\<close>

definition internal_error :: response where
  "internal_error = \<lparr>answer = JStr internal_error_answer, intent = JNull,
     error = JStr ''INTERNAL_ERROR''\<rparr>"



subsection \<open>The pattern scorer in the words of the specification\<close>

text \<open>
  Written from sections 4.2 and 4.3 of the specification, for the comparison with the
  loops of the source. The words of a string are its whitespace-delimited words. The edit
  distance is the classic recurrence \<open>lev\<close>. The numbers are doubles and the terms of a
  sum are added in their order.
\<close>

fun split_where :: "(char \<Rightarrow> bool) \<Rightarrow> string \<Rightarrow> string list" where
  "split_where P [] = [[]]"
| "split_where P (c # cs) =
     (if P c then [] # split_where P cs
      else (case split_where P cs of w # ws \<Rightarrow> (c # w) # ws | [] \<Rightarrow> [[c]]))"

definition spec_words :: "string \<Rightarrow> string list" where
  "spec_words s = filter (\<lambda>word. word \<noteq> []) (split_where is_whitespace s)"

text \<open>
  Section 4.2: \<open>1 - editDistance(a,b) / max(len(a),len(b))\<close>, 1 when both strings are
  empty, 0 when one of them is.
\<close>

definition spec_similarity :: "string \<Rightarrow> string \<Rightarrow> rat" where
  "spec_similarity a b =
     (if a = [] \<and> b = [] then 1
      else if a = [] \<or> b = [] then 0
      else fsub 1 (fdiv (of_nat (lev a b)) (of_nat (max (length a) (length b)))))"

definition spec_accumulate :: "rat list \<Rightarrow> rat" where
  "spec_accumulate xs = fold (\<lambda>x total. fadd total x) xs 0"

text \<open>The best similarity of a query word against any pattern word.\<close>

definition spec_bestSimilarity :: "string \<Rightarrow> string list \<Rightarrow> rat" where
  "spec_bestSimilarity queryWord patternWords =
     (if patternWords = [] then 0
      else Max (spec_similarity queryWord ` set patternWords))"

text \<open>The average of the best similarities over the query words.\<close>

definition spec_wordSimilarityScore :: "string list \<Rightarrow> string list \<Rightarrow> rat" where
  "spec_wordSimilarityScore queryWords patternWords =
     fdiv (spec_accumulate
             (map (\<lambda>queryWord. spec_bestSimilarity queryWord patternWords) queryWords))
       (of_nat (length queryWords))"

text \<open>A query word matches when its best similarity exceeds 0.6.\<close>

definition spec_matches :: "string \<Rightarrow> string list \<Rightarrow> bool" where
  "spec_matches queryWord patternWords \<longleftrightarrow>
     spec_bestSimilarity queryWord patternWords > fl (6 / 10)"

definition spec_matchedWordCount :: "string list \<Rightarrow> string list \<Rightarrow> nat" where
  "spec_matchedWordCount queryWords patternWords =
     length (filter (\<lambda>queryWord. spec_matches queryWord patternWords) queryWords)"

definition spec_matchedWordCoverage :: "string list \<Rightarrow> string list \<Rightarrow> rat" where
  "spec_matchedWordCoverage queryWords patternWords =
     fdiv (of_nat (spec_matchedWordCount queryWords patternWords))
       (of_nat (max (length queryWords) (length patternWords)))"

definition spec_exactMatchScore :: "string \<Rightarrow> string \<Rightarrow> rat" where
  "spec_exactMatchScore normalizedQuery normalizedPattern =
     (if normalizedQuery = normalizedPattern then 1 else 0)"

text \<open>
  The index \<open>j\<close> of the pattern word that a query word is matched with: the first one of
  the best similarity.
\<close>

fun first_index :: "('a \<Rightarrow> bool) \<Rightarrow> 'a list \<Rightarrow> nat" where
  "first_index P [] = 0"
| "first_index P (x # xs) = (if P x then 0 else Suc (first_index P xs))"

definition spec_matchIndex :: "string \<Rightarrow> string list \<Rightarrow> nat" where
  "spec_matchIndex queryWord patternWords =
     first_index
       (\<lambda>patternWord. spec_similarity queryWord patternWord
                         = spec_bestSimilarity queryWord patternWords)
       patternWords"

text \<open>A word contains one of the domain keywords (the table is the one of the source).\<close>

definition contains_keyword :: "string \<Rightarrow> bool" where
  "contains_keyword word = list_ex (\<lambda>keyword. includes_str word keyword) medicalKeywords"

text \<open>
  The word order score: over the query words with a match, the average of
  \<open>1 - |i - j| / max(queryLen, patternLen)\<close> (0 if none matched), plus 0.2 per matched
  pair in which the query word or the pattern word contains a keyword, clamped at 1.
\<close>

definition spec_wordOrderScore :: "string list \<Rightarrow> string list \<Rightarrow> rat" where
  "spec_wordOrderScore queryWords patternWords =
     (let matched = filter (\<lambda>i. spec_matches (queryWords ! i) patternWords)
                      [0..<length queryWords];
          j = (\<lambda>i. spec_matchIndex (queryWords ! i) patternWords);
          position = (\<lambda>i. fsub 1 (fdiv (of_int \<bar>int i - int (j i)\<bar>)
                                     (of_nat (max (length queryWords) (length patternWords)))));
          average = (if matched = [] then 0
                     else fdiv (spec_accumulate (map position matched))
                            (of_nat (length matched)));
          pairs = filter (\<lambda>i. contains_keyword (queryWords ! i)
                               \<or> contains_keyword (patternWords ! j i)) matched
      in min 1 (fadd average (fmul (of_nat (length pairs)) (fl (2 / 10)))))"

text \<open>
  The score of a pattern against a normalized query, for a given normalization of the
  pattern and a given splitting into words.
\<close>

definition spec_score_with ::
  "(string \<Rightarrow> string) \<Rightarrow> (string \<Rightarrow> string list) \<Rightarrow> string \<Rightarrow> string \<Rightarrow> rat" where
  "spec_score_with normalizePattern wordsOf normalizedQuery pattern =
     (let normalizedPattern = normalizePattern pattern;
          queryWords = wordsOf normalizedQuery;
          patternWords = wordsOf normalizedPattern
      in fdiv
           (fadd
              (fadd
                 (fadd (fmul (spec_exactMatchScore normalizedQuery normalizedPattern) 1)
                    (fmul (spec_wordSimilarityScore queryWords patternWords) (fl (7 / 10))))
                 (fmul (spec_wordOrderScore queryWords patternWords) (fl (6 / 10))))
              (fmul (spec_matchedWordCoverage queryWords patternWords) (fl (9 / 10))))
           (fl (32 / 10)))"

text \<open>
  Section 4.3: query and pattern are lower-cased and trimmed, and split into
  whitespace-delimited words.
\<close>

definition spec_patternScore :: "string \<Rightarrow> string \<Rightarrow> rat" where
  "spec_patternScore normalizedQuery pattern =
     spec_score_with (\<lambda>p. trim (toLowerCase p)) spec_words normalizedQuery pattern"

text \<open>
  What the source does instead: the pattern is lower-cased and not trimmed, and the words
  are split at the space character only.
\<close>

definition source_patternScore :: "string \<Rightarrow> string \<Rightarrow> rat" where
  "source_patternScore normalizedQuery pattern =
     spec_score_with toLowerCase words_of normalizedQuery pattern"

text \<open>
  The score of an intent: the maximum of the pattern scores over its patterns that are
  strings, and 0 when it has none.
\<close>

definition intent_score_with :: "(string \<Rightarrow> string \<Rightarrow> rat) \<Rightarrow> string \<Rightarrow> jsval list \<Rightarrow> rat" where
  "intent_score_with scorer normalizedQuery patterns =
     (if filter is_string patterns = [] then 0
      else Max ((\<lambda>pattern. scorer normalizedQuery (chars pattern))
                  ` set (filter is_string patterns)))"

text \<open>The score of a catalog entry against a query string, with a given pattern scorer.\<close>

definition entry_score_with :: "(string \<Rightarrow> string \<Rightarrow> rat) \<Rightarrow> string \<Rightarrow> jsval \<Rightarrow> rat" where
  "entry_score_with scorer q entry =
     intent_score_with scorer (trim (toLowerCase q)) (elements (get_prop entry ''patterns''))"

text \<open>The update of \<open>bestMatch\<close> in the loop over the intents, for a score \<open>sc\<close> of the
  entries.\<close>

definition keep_best :: "(jsval \<Rightarrow> rat) \<Rightarrow> jsval \<Rightarrow> best_match \<Rightarrow> best_match" where
  "keep_best sc entry bestMatch =
     (if sc entry > match_score bestMatch
      then \<lparr>match_intent = entry, match_score = sc entry\<rparr> else bestMatch)"

subsection \<open>More catalogs\<close>

text \<open>Two intents with the same pattern, which scores exactly 0.25 for the query \<open>z\<close>.\<close>

definition first_z_intent :: jsval where
  "first_z_intent =
     JObj [(''tag'', JStr ''First''),
           (''patterns'', JArr [JNum 5, JStr ''a a a a a a a a a a a a a a z'']),
           (''responses'', JArr [JStr ''one''])]"

definition second_z_intent :: jsval where
  "second_z_intent =
     JObj [(''tag'', JStr ''Second''),
           (''patterns'', JArr [JStr ''a a a a a a a a a a a a a a z'']),
           (''responses'', JArr [JStr ''two''])]"

definition z_service :: service where
  "z_service = \<lparr>intents = JArr [first_z_intent, second_z_intent], logged = [],
     metrics = None\<rparr>"

text \<open>Two intents whose patterns differ by a space at the end.\<close>

definition spaced_intent :: jsval where
  "spaced_intent =
     JObj [(''tag'', JStr ''Spaced''),
           (''patterns'', JArr [JStr ''cuts '']),
           (''responses'', JArr [JStr ''one''])]"

definition plain_intent :: jsval where
  "plain_intent =
     JObj [(''tag'', JStr ''Plain''),
           (''patterns'', JArr [JStr ''cuts'']),
           (''responses'', JArr [JStr ''two''])]"

definition spaced_service :: service where
  "spaced_service = \<lparr>intents = JArr [spaced_intent, plain_intent], logged = [],
     metrics = None\<rparr>"



subsection \<open>Rounding to the nearest double\<close>

lemma powi_less_iff: "(2::rat) powi a < 2 powi b \<longleftrightarrow> a < b"
proof
  assume "(2::rat) powi a < 2 powi b"
  show "a < b"
  proof (rule ccontr)
    assume "\<not> a < b"
    then have "(2::rat) powi b \<le> 2 powi a"
      by (intro power_int_increasing) simp_all
    with \<open>(2::rat) powi a < 2 powi b\<close> show False by simp
  qed
next
  assume "a < b"
  then show "(2::rat) powi a < 2 powi b"
    by (intro power_int_strict_increasing) simp_all
qed

lemma powi_le_iff: "(2::rat) powi a \<le> 2 powi b \<longleftrightarrow> a \<le> b"
  using powi_less_iff [of b a] by (simp add: not_less [symmetric])

lemma binade_bounds:
  assumes "0 < x"
  shows "2 powi binade x \<le> x \<and> x < 2 powi (binade x + 1)"
proof (cases "1 \<le> x")
  case True
  define m where "m = \<lfloor>x\<rfloor>"
  have m: "0 < m" "of_int m \<le> x" "x < of_int m + 1"
    using True floor_correct [of x] unfolding m_def by simp_all
  from bitlen_bounds [OF m(1)] have b: "2 ^ nat (bitlen m - 1) \<le> m" "m < 2 ^ nat (bitlen m)"
    by simp_all
  have pos: "1 \<le> bitlen m"
    using m(1) by (simp add: bitlen_alt_def)
  have "(2::rat) powi (bitlen m - 1) = of_int (2 ^ nat (bitlen m - 1))"
    using pos by (simp add: power_int_nonneg_exp)
  also have "\<dots> \<le> of_int m"
    using b(1) by (simp only: of_int_le_iff)
  finally have lo: "2 powi (bitlen m - 1) \<le> x"
    using m(2) by simp
  have "m + 1 \<le> 2 ^ nat (bitlen m)"
    using b(2) by simp
  then have "(of_int (m + 1) :: rat) \<le> of_int (2 ^ nat (bitlen m))"
    by (simp only: of_int_le_iff)
  also have "\<dots> = 2 powi (bitlen m)"
    using pos by (simp add: power_int_nonneg_exp)
  finally have hi: "x < 2 powi (bitlen m)"
    using m(3) by simp
  from lo hi True show ?thesis
    unfolding binade_def m_def by simp
next
  case False
  define m where "m = \<lfloor>1 / x\<rfloor>"
  define k where "k = bitlen m - 1"
  have inv: "1 < 1 / x"
    using False assms by simp
  have m: "0 < m" "of_int m \<le> 1 / x" "1 / x < of_int m + 1"
    using inv floor_correct [of "1 / x"] unfolding m_def by simp_all
  from bitlen_bounds [OF m(1)] have b: "2 ^ nat k \<le> m" "m < 2 ^ nat (k + 1)"
    unfolding k_def by simp_all
  have k: "0 \<le> k"
    using m(1) unfolding k_def by (simp add: bitlen_alt_def)
  have "(2::rat) powi k = of_int (2 ^ nat k)"
    using k by (simp add: power_int_nonneg_exp)
  also have "\<dots> \<le> of_int m"
    using b(1) by (simp only: of_int_le_iff)
  finally have "2 powi k \<le> 1 / x"
    using m(2) by simp
  then have "x * 2 powi k \<le> 1"
    using assms by (simp add: field_simps)
  then have hi: "x \<le> 2 powi (- k)"
    by (simp add: power_int_minus field_simps)
  have "m + 1 \<le> 2 ^ nat (k + 1)"
    using b(2) by simp
  then have "(of_int (m + 1) :: rat) \<le> of_int (2 ^ nat (k + 1))"
    by (simp only: of_int_le_iff)
  also have "\<dots> = 2 powi (k + 1)"
    using k by (simp add: power_int_nonneg_exp)
  finally have "1 / x < 2 powi (k + 1)"
    using m(3) by simp
  then have "1 < x * 2 powi (k + 1)"
    using assms by (simp add: field_simps)
  then have "1 / 2 powi (k + 1) < x"
    by (simp add: pos_divide_less_eq)
  moreover have "(2::rat) powi (- k - 1) = 2 powi (- (k + 1))"
    by (rule arg_cong [where f = "\<lambda>e. 2 powi e"]) simp
  moreover have "(2::rat) powi (- (k + 1)) = 1 / 2 powi (k + 1)"
    by (rule power_int_minus_divide)
  ultimately have lo: "2 powi (- k - 1) < x"
    by simp
  show ?thesis
  proof (cases "x = 2 powi (- k)")
    case True
    then have "binade x = - k"
      using False unfolding binade_def m_def k_def by (simp add: Let_def)
    with True show ?thesis
      by (simp add: powi_less_iff)
  next
    case ne: False
    then have "binade x = - k - 1"
      using False unfolding binade_def m_def k_def by (simp add: Let_def)
    with lo hi ne show ?thesis
      by simp
  qed
qed

lemma binade_eqI:
  assumes "0 < x" "2 powi e \<le> x" "x < 2 powi (e + 1)"
  shows "binade x = e"
proof -
  from binade_bounds [OF assms(1)] assms(2,3)
  have "(2::rat) powi binade x < 2 powi (e + 1)" "(2::rat) powi e < 2 powi (binade x + 1)"
    by simp_all
  then have "binade x < e + 1" "e < binade x + 1"
    by (simp_all only: powi_less_iff)
  then show ?thesis by simp
qed

lemma binade_mono:
  assumes "0 < x" "x \<le> y"
  shows "binade x \<le> binade y"
proof -
  have "0 < y" using assms by simp
  from binade_bounds [OF assms(1)] binade_bounds [OF this] assms(2)
  have "(2::rat) powi binade x < 2 powi (binade y + 1)"
    by simp
  then have "binade x < binade y + 1"
    by (simp only: powi_less_iff)
  then show ?thesis by simp
qed

lemma round_half_even_cases:
  "round_half_even q = \<lfloor>q\<rfloor> \<or> round_half_even q = \<lfloor>q\<rfloor> + 1"
  unfolding round_half_even_def by (simp add: Let_def)

lemma round_half_even_of_int [simp]: "round_half_even (of_int n) = n"
  unfolding round_half_even_def by (simp add: Let_def)

lemma round_half_even_ge:
  assumes "of_int n \<le> q"
  shows "n \<le> round_half_even q"
proof -
  have "n \<le> \<lfloor>q\<rfloor>"
    using assms by (simp add: le_floor_iff)
  then show ?thesis
    using round_half_even_cases [of q] by auto
qed

lemma round_half_even_le:
  assumes "q \<le> of_int n"
  shows "round_half_even q \<le> n"
proof (cases "q = of_int n")
  case True
  then show ?thesis by simp
next
  case False
  with assms have "q < of_int n" by simp
  then have "\<lfloor>q\<rfloor> < n"
    by (simp add: floor_less_iff)
  then show ?thesis
    using round_half_even_cases [of q] by auto
qed

lemma round_half_even_mono:
  assumes "q \<le> q'"
  shows "round_half_even q \<le> round_half_even q'"
proof (cases "\<lfloor>q\<rfloor> = \<lfloor>q'\<rfloor>")
  case True
  then have "q - of_int \<lfloor>q\<rfloor> \<le> q' - of_int \<lfloor>q'\<rfloor>"
    using assms by simp
  with True show ?thesis
    unfolding round_half_even_def by (auto simp: Let_def)
next
  case False
  then have "\<lfloor>q\<rfloor> < \<lfloor>q'\<rfloor>"
    using floor_mono [OF assms] by simp
  then have "\<lfloor>q\<rfloor> + 1 \<le> \<lfloor>q'\<rfloor>"
    by simp
  then show ?thesis
    using round_half_even_cases [of q] round_half_even_cases [of q'] by auto
qed

lemma fl_0 [simp]: "fl 0 = 0"
  by (simp add: fl_def)

lemma fl_pos:
  "0 < x \<Longrightarrow>
   fl x = of_int (round_half_even (x / 2 powi (binade x - 52))) * 2 powi (binade x - 52)"
  by (simp add: fl_def Let_def)

lemma fl_bounds:
  assumes "0 < x"
  shows "2 powi binade x \<le> fl x \<and> fl x \<le> 2 powi (binade x + 1)"
proof -
  define u :: rat where "u = 2 powi (binade x - 52)"
  have u: "0 < u"
    unfolding u_def by simp
  have lo_eq: "2 powi binade x = of_int (2 ^ 52) * u"
    unfolding u_def using power_int_add [of "2::rat" 52 "binade x - 52"] by simp
  have hi_eq: "2 powi (binade x + 1) = of_int (2 ^ 53) * u"
    unfolding u_def using power_int_add [of "2::rat" 53 "binade x - 52"]
    by (simp add: add.commute)
  from binade_bounds [OF assms] have "of_int (2 ^ 52) \<le> x / u" "x / u \<le> of_int (2 ^ 53)"
    using u unfolding lo_eq hi_eq by (simp_all add: field_simps)
  then have "2 ^ 52 \<le> round_half_even (x / u)" "round_half_even (x / u) \<le> 2 ^ 53"
    using round_half_even_ge round_half_even_le by blast+
  then have "(of_int (2 ^ 52) :: rat) \<le> of_int (round_half_even (x / u))"
      "(of_int (round_half_even (x / u)) :: rat) \<le> of_int (2 ^ 53)"
    by (simp_all only: of_int_le_iff)
  then have "of_int (2 ^ 52) * u \<le> of_int (round_half_even (x / u)) * u"
      "of_int (round_half_even (x / u)) * u \<le> of_int (2 ^ 53) * u"
    using u by (simp_all only: mult_le_cancel_right_pos)
  then show ?thesis
    unfolding lo_eq hi_eq fl_pos [OF assms] u_def by simp
qed

lemma fl_nonneg:
  assumes "0 \<le> x"
  shows "0 \<le> fl x"
proof (cases "x = 0")
  case True
  then show ?thesis by simp
next
  case False
  with assms have "0 < x" by simp
  from fl_bounds [OF this] have "2 powi binade x \<le> fl x"
    by simp
  moreover have "(0::rat) < 2 powi binade x"
    by simp
  ultimately show ?thesis by linarith
qed

lemma fl_mono:
  assumes "0 \<le> x" "x \<le> y"
  shows "fl x \<le> fl y"
proof (cases "x = 0")
  case True
  then show ?thesis
    using assms fl_nonneg [of y] by simp
next
  case False
  then have x: "0 < x" and y: "0 < y"
    using assms by simp_all
  show ?thesis
  proof (cases "binade x = binade y")
    case True
    define u :: rat where "u = 2 powi (binade x - 52)"
    have u: "0 < u"
      unfolding u_def by simp
    have "x / u \<le> y / u"
      using assms(2) u by (simp add: divide_right_mono)
    then have "round_half_even (x / u) \<le> round_half_even (y / u)"
      by (rule round_half_even_mono)
    then have "(of_int (round_half_even (x / u)) :: rat) \<le> of_int (round_half_even (y / u))"
      by (simp only: of_int_le_iff)
    then have "of_int (round_half_even (x / u)) * u \<le> of_int (round_half_even (y / u)) * u"
      using u by (simp only: mult_le_cancel_right_pos)
    then show ?thesis
      unfolding fl_pos [OF x] fl_pos [OF y] True [symmetric] u_def .
  next
    case False
    then have "binade x + 1 \<le> binade y"
      using binade_mono [OF x assms(2)] by simp
    then have "(2::rat) powi (binade x + 1) \<le> 2 powi binade y"
      by (simp only: powi_le_iff)
    with fl_bounds [OF x] fl_bounds [OF y] show ?thesis
      by simp
  qed
qed

lemma fl_exact:
  assumes "0 < x" "x = of_int n * 2 powi (binade x - 52)"
  shows "fl x = x"
proof -
  have "x / 2 powi (binade x - 52) = of_int n"
    using assms(2) by (metis nonzero_mult_div_cancel_right power_int_eq_0_iff zero_neq_numeral)
  then show ?thesis
    using assms(2) unfolding fl_pos [OF assms(1)] by simp
qed

lemma fl_of_nat:
  assumes "n \<le> 2 ^ 53"
  shows "fl (of_nat n) = of_nat n"
proof (cases "n = 0")
  case False
  define x :: rat where "x = of_nat n"
  have x: "0 < x"
    using False unfolding x_def by simp
  have "x \<le> 2 powi 53"
    unfolding x_def using assms by (metis of_nat_le_iff of_nat_numeral of_nat_power power_int_numeral)
  moreover have "(2::rat) powi 53 < 2 powi (53 + 1)"
    by (simp only: powi_less_iff)
  ultimately have "x < 2 powi (53 + 1)"
    by (rule le_less_trans)
  with binade_bounds [OF x] have "(2::rat) powi binade x < 2 powi (53 + 1)"
    by (meson le_less_trans)
  then have "binade x < 53 + 1"
    by (simp only: powi_less_iff)
  then have e: "binade x \<le> 53"
    by simp
  show ?thesis
  proof (cases "binade x = 53")
    case True
    then have "2 powi 53 \<le> x"
      using binade_bounds [OF x] by simp
    with \<open>x \<le> 2 powi 53\<close> have "x = 2 powi 53"
      by simp
    then have "x = of_int (2 ^ 52) * 2 powi (binade x - 52)"
      using True by simp
    from fl_exact [OF x this] show ?thesis
      unfolding x_def .
  next
    case False
    with e have "0 \<le> 52 - binade x"
      by simp
    then have "(2::rat) powi (52 - binade x) = of_int (2 ^ nat (52 - binade x))"
      by (simp add: power_int_nonneg_exp)
    moreover have "x = x * 2 powi (52 - binade x) * 2 powi (binade x - 52)"
      using power_int_add [of "2::rat" "52 - binade x" "binade x - 52"] by simp
    ultimately have "x = of_int (int n * 2 ^ nat (52 - binade x)) * 2 powi (binade x - 52)"
      unfolding x_def by simp
    from fl_exact [OF x this] show ?thesis
      unfolding x_def .
  qed
qed simp

lemma fl_1 [simp]: "fl 1 = 1"
  using fl_of_nat [of 1] by simp

lemma fl_le_1: "0 \<le> x \<Longrightarrow> x \<le> 1 \<Longrightarrow> fl x \<le> 1"
  using fl_mono [of x 1] by simp

lemma round_half_even_eqI:
  assumes "\<bar>q - of_int m\<bar> < 1 / 2 \<or> (\<bar>q - of_int m\<bar> = 1 / 2 \<and> even m)"
  shows "round_half_even q = m"
proof -
  consider (below) "of_int m \<le> q" "q < of_int m + 1" | (above) "of_int m - 1 \<le> q" "q < of_int m"
    using assms by fastforce
  then show ?thesis
  proof cases
    case below
    then have "\<lfloor>q\<rfloor> = m"
      by (simp add: floor_unique)
    then show ?thesis
      using assms below unfolding round_half_even_def by (auto simp: Let_def)
  next
    case above
    then have "\<lfloor>q\<rfloor> = m - 1"
      by (simp add: floor_unique)
    then show ?thesis
      using assms above unfolding round_half_even_def by (auto simp: Let_def)
  qed
qed

lemma fl_evalI:
  assumes "0 < x" "2 powi e \<le> x" "x < 2 powi (e + 1)"
    and "\<bar>x / 2 powi (e - 52) - of_int m\<bar> < 1 / 2 \<or>
         (\<bar>x / 2 powi (e - 52) - of_int m\<bar> = 1 / 2 \<and> even m)"
    and "r = of_int m * 2 powi (e - 52)"
  shows "fl x = r"
proof -
  have "binade x = e"
    using assms(1-3) by (rule binade_eqI)
  moreover have "round_half_even (x / 2 powi (e - 52)) = m"
    using assms(4) by (rule round_half_even_eqI)
  ultimately show ?thesis
    using assms(1,5) by (simp add: fl_pos)
qed

lemma fl_6_10: "fl (6 / 10) = 5404319552844595 / 9007199254740992"
  by (rule fl_evalI [where e = "-1" and m = 5404319552844595]) simp_all

lemma fl_3_5: "fl (3 / 5) = 5404319552844595 / 9007199254740992"
  by (rule fl_evalI [where e = "-1" and m = 5404319552844595]) simp_all

lemma fl_7_10: "fl (7 / 10) = 3152519739159347 / 4503599627370496"
  by (rule fl_evalI [where e = "-1" and m = 6305039478318694]) simp_all

lemma fl_9_10: "fl (9 / 10) = 8106479329266893 / 9007199254740992"
  by (rule fl_evalI [where e = "-1" and m = 8106479329266893]) simp_all

lemma fl_32_10: "fl (32 / 10) = 3602879701896397 / 1125899906842624"
  by (rule fl_evalI [where e = "1" and m = 7205759403792794]) simp_all

lemma fl_16_5: "fl (16 / 5) = 3602879701896397 / 1125899906842624"
  by (rule fl_evalI [where e = "1" and m = 7205759403792794]) simp_all

lemma fl_2_10: "fl (2 / 10) = 3602879701896397 / 18014398509481984"
  by (rule fl_evalI [where e = "-3" and m = 7205759403792794]) simp_all

lemma fl_1_5: "fl (1 / 5) = 3602879701896397 / 18014398509481984"
  by (rule fl_evalI [where e = "-3" and m = 7205759403792794]) simp_all

lemma fl_25_100: "fl (25 / 100) = 1 / 4"
  by (rule fl_evalI [where e = "-2" and m = 4503599627370496]) simp_all

lemma fl_1_4: "fl (1 / 4) = 1 / 4"
  by (rule fl_evalI [where e = "-2" and m = 4503599627370496]) simp_all

subsection \<open>The matrix holds the prefix distances\<close>

lemma well_formed_set_cell:
  "well_formed rows cols m \<Longrightarrow> well_formed rows cols (set_cell m j i v)"
proof (cases "j < length m")
  case True
  assume wf: "well_formed rows cols m"
  have "length ((m ! j)[i := v]) = cols"
    using wf True unfolding well_formed_def by simp
  moreover have "set (m[j := (m ! j)[i := v]]) \<subseteq> insert ((m ! j)[i := v]) (set m)"
    by (rule set_update_subset_insert)
  ultimately show ?thesis
    using wf unfolding well_formed_def set_cell_def by auto
next
  case False
  assume "well_formed rows cols m"
  then show ?thesis
    using False unfolding set_cell_def by (simp add: list_update_beyond not_less)
qed

lemma cell_set_cell:
  assumes "well_formed rows cols m" "j < rows" "i < cols"
  shows "cell (set_cell m j i v) j' i' = (if j' = j \<and> i' = i then v else cell m j' i')"
proof -
  have "length (m ! j) = cols"
    using assms unfolding well_formed_def by simp
  then show ?thesis
    using assms unfolding well_formed_def set_cell_def cell_def
    by (cases "j' = j") (auto simp: nth_list_update)
qed

lemma well_formed_new_matrix: "well_formed rows cols (new_matrix rows cols)"
  unfolding well_formed_def new_matrix_def by simp

lemma prefix_distance_0 [simp]: "prefix_distance s1 s2 i 0 = i"
  by (cases i) simp_all

lemma first_row:
  assumes "well_formed rows cols m" "0 < rows" "k \<le> cols"
  shows "well_formed rows cols (fold (\<lambda>i m. set_cell m 0 i i) [0..<k] m) \<and>
         (\<forall>i < k. cell (fold (\<lambda>i m. set_cell m 0 i i) [0..<k] m) 0 i = i)"
  using assms(3)
proof (induction k)
  case 0
  then show ?case using assms by simp
next
  case (Suc k)
  then show ?case
    using assms(2) by (auto simp: well_formed_set_cell cell_set_cell less_Suc_eq)
qed

lemma first_column:
  assumes "well_formed rows cols m" "0 < cols" "k \<le> rows" "\<forall>i < cols. cell m 0 i = i"
  shows "well_formed rows cols (fold (\<lambda>j m. set_cell m j 0 j) [0..<k] m) \<and>
         (\<forall>j < k. cell (fold (\<lambda>j m. set_cell m j 0 j) [0..<k] m) j 0 = j) \<and>
         (\<forall>i < cols. cell (fold (\<lambda>j m. set_cell m j 0 j) [0..<k] m) 0 i = i)"
  using assms(3)
proof (induction k)
  case 0
  then show ?case using assms by simp
next
  case (Suc k)
  then show ?case
    using assms(2) by (auto simp: well_formed_set_cell cell_set_cell less_Suc_eq)
qed

lemma filled_well_formed:
  "filled s1 s2 j k m \<Longrightarrow> well_formed (Suc (length s2)) (Suc (length s1)) m"
  unfolding filled_def by simp

lemma filled_cell:
  "filled s1 s2 j k m \<Longrightarrow> j' \<le> length s2 \<Longrightarrow> i' \<le> length s1 \<Longrightarrow>
   j' = 0 \<or> i' = 0 \<or> j' < j \<or> (j' = j \<and> i' < k) \<Longrightarrow>
   cell m j' i' = prefix_distance s1 s2 i' j'"
  unfolding filled_def by blast

lemma filledI:
  assumes "well_formed (Suc (length s2)) (Suc (length s1)) m"
    and "\<And>j' i'. j' \<le> length s2 \<Longrightarrow> i' \<le> length s1 \<Longrightarrow>
        j' = 0 \<or> i' = 0 \<or> j' < j \<or> (j' = j \<and> i' < k) \<Longrightarrow>
        cell m j' i' = prefix_distance s1 s2 i' j'"
  shows "filled s1 s2 j k m"
  unfolding filled_def using assms by blast

lemma filled_borders:
  assumes "well_formed (Suc (length s2)) (Suc (length s1)) m"
    and "\<forall>j \<le> length s2. cell m j 0 = j" and "\<forall>i \<le> length s1. cell m 0 i = i"
  shows "filled s1 s2 1 1 m"
  using assms unfolding filled_def by auto

lemma filled_fill_cell_Suc:
  assumes "filled s1 s2 (Suc j) (Suc k) m" "Suc j \<le> length s2" "Suc k \<le> length s1"
  shows "filled s1 s2 (Suc j) (Suc (Suc k)) (fill_cell s1 s2 (Suc j) (Suc k) m)"
proof -
  have wf: "well_formed (Suc (length s2)) (Suc (length s1)) m"
    using assms(1) by (rule filled_well_formed)
  note old = filled_cell [OF assms(1)]
  have a: "cell m (Suc j) k = prefix_distance s1 s2 k (Suc j)"
    using assms(2,3) by (intro old) simp_all
  have b: "cell m j (Suc k) = prefix_distance s1 s2 (Suc k) j"
    using assms(2,3) by (intro old) simp_all
  have c: "cell m j k = prefix_distance s1 s2 k j"
    using assms(2,3) by (intro old) simp_all
  have v: "min (min (cell m (Suc j) (Suc k - 1) + 1) (cell m (Suc j - 1) (Suc k) + 1))
      (cell m (Suc j - 1) (Suc k - 1) + substitutionCost s1 s2 (Suc k) (Suc j)) =
      prefix_distance s1 s2 (Suc k) (Suc j)"
    by (simp add: a b c substitutionCost_def)
  have new: "cell (fill_cell s1 s2 (Suc j) (Suc k) m) j' i' =
      (if j' = Suc j \<and> i' = Suc k then prefix_distance s1 s2 (Suc k) (Suc j)
       else cell m j' i')" for j' i'
    unfolding fill_cell_def v using assms(2,3) by (intro cell_set_cell [OF wf]) simp_all
  show ?thesis
  proof (rule filledI)
    show "well_formed (Suc (length s2)) (Suc (length s1)) (fill_cell s1 s2 (Suc j) (Suc k) m)"
      unfolding fill_cell_def by (rule well_formed_set_cell [OF wf])
  next
    fix j' i'
    assume le: "j' \<le> length s2" "i' \<le> length s1"
      and "j' = 0 \<or> i' = 0 \<or> j' < Suc j \<or> j' = Suc j \<and> i' < Suc (Suc k)"
    then consider "j' = Suc j \<and> i' = Suc k"
      | "j' = 0 \<or> i' = 0 \<or> j' < Suc j \<or> (j' = Suc j \<and> i' < Suc k)"
      by (auto simp: less_Suc_eq)
    then show "cell (fill_cell s1 s2 (Suc j) (Suc k) m) j' i' = prefix_distance s1 s2 i' j'"
    proof cases
      case 1
      then show ?thesis by (simp add: new)
    next
      case 2
      then have "cell m j' i' = prefix_distance s1 s2 i' j'"
        using le by (intro old)
      moreover have "\<not> (j' = Suc j \<and> i' = Suc k)"
        using 2 by auto
      ultimately show ?thesis by (simp add: new)
    qed
  qed
qed

lemma filled_fill_cell:
  assumes "filled s1 s2 j k m" "1 \<le> j" "j \<le> length s2" "1 \<le> k" "k \<le> length s1"
  shows "filled s1 s2 j (Suc k) (fill_cell s1 s2 j k m)"
proof -
  obtain j0 k0 where "j = Suc j0" "k = Suc k0"
    using assms(2,4) by (cases j; cases k) auto
  then show ?thesis
    using assms filled_fill_cell_Suc [of s1 s2 j0 k0 m] by simp
qed

lemma filled_fill_row_upto:
  assumes "filled s1 s2 j 1 m" "1 \<le> j" "j \<le> length s2" "k \<le> length s1"
  shows "filled s1 s2 j (Suc k) (fold (fill_cell s1 s2 j) [1..<Suc k] m)"
  using assms(4)
proof (induction k)
  case 0
  then show ?case using assms(1) by simp
next
  case (Suc k)
  then have "filled s1 s2 j (Suc k) (fold (fill_cell s1 s2 j) [1..<Suc k] m)"
    by simp
  then have "filled s1 s2 j (Suc (Suc k))
      (fill_cell s1 s2 j (Suc k) (fold (fill_cell s1 s2 j) [1..<Suc k] m))"
    using assms(2,3) Suc.prems by (intro filled_fill_cell) simp_all
  then show ?case by simp
qed

lemma filled_next_row:
  assumes "filled s1 s2 j (Suc (length s1)) m"
  shows "filled s1 s2 (Suc j) 1 m"
proof (rule filledI)
  show "well_formed (Suc (length s2)) (Suc (length s1)) m"
    using assms by (rule filled_well_formed)
next
  fix j' i'
  assume "j' \<le> length s2" "i' \<le> length s1"
    and "j' = 0 \<or> i' = 0 \<or> j' < Suc j \<or> j' = Suc j \<and> i' < 1"
  then have "j' = 0 \<or> i' = 0 \<or> j' < j \<or> (j' = j \<and> i' < Suc (length s1))"
    by auto
  with \<open>j' \<le> length s2\<close> \<open>i' \<le> length s1\<close>
  show "cell m j' i' = prefix_distance s1 s2 i' j'"
    by (rule filled_cell [OF assms])
qed

lemma filled_fill_row:
  assumes "filled s1 s2 j 1 m" "1 \<le> j" "j \<le> length s2"
  shows "filled s1 s2 (Suc j) 1 (fill_row s1 s2 j m)"
  unfolding fill_row_def
  by (rule filled_next_row, rule filled_fill_row_upto [OF assms]) simp

lemma filled_rows_upto:
  assumes "filled s1 s2 1 1 m" "j \<le> length s2"
  shows "filled s1 s2 (Suc j) 1 (fold (fill_row s1 s2) [1..<Suc j] m)"
  using assms(2)
proof (induction j)
  case 0
  then show ?case using assms(1) by simp
next
  case (Suc j)
  then have "filled s1 s2 (Suc j) 1 (fold (fill_row s1 s2) [1..<Suc j] m)"
    by simp
  then have "filled s1 s2 (Suc (Suc j)) 1
      (fill_row s1 s2 (Suc j) (fold (fill_row s1 s2) [1..<Suc j] m))"
    using Suc.prems by (intro filled_fill_row) simp_all
  then show ?case by simp
qed

lemma levenshtein_prefix_distance:
  "calculateLevenshteinDistance s1 s2 = prefix_distance s1 s2 (length s1) (length s2)"
proof -
  define m0 :: matrix where "m0 = new_matrix (length s2 + 1) (length s1 + 1)"
  define m1 where "m1 = fold (\<lambda>i m. set_cell m 0 i i) [0..<Suc (length s1)] m0"
  define m2 where "m2 = fold (\<lambda>j m. set_cell m j 0 j) [0..<Suc (length s2)] m1"
  define m3 where "m3 = fold (fill_row s1 s2) [1..<Suc (length s2)] m2"
  have wf0: "well_formed (Suc (length s2)) (Suc (length s1)) m0"
    unfolding m0_def using well_formed_new_matrix [of "Suc (length s2)" "Suc (length s1)"]
    by simp
  have r1: "well_formed (Suc (length s2)) (Suc (length s1)) m1 \<and>
      (\<forall>i < Suc (length s1). cell m1 0 i = i)"
    unfolding m1_def by (rule first_row [OF wf0]) simp_all
  then have r2: "well_formed (Suc (length s2)) (Suc (length s1)) m2 \<and>
      (\<forall>j < Suc (length s2). cell m2 j 0 = j) \<and>
      (\<forall>i < Suc (length s1). cell m2 0 i = i)"
    unfolding m2_def by (intro first_column) simp_all
  then have "filled s1 s2 1 1 m2"
    by (intro filled_borders) (simp_all add: less_Suc_eq_le)
  then have "filled s1 s2 (Suc (length s2)) 1 m3"
    unfolding m3_def by (rule filled_rows_upto) simp
  then have "cell m3 (length s2) (length s1) = prefix_distance s1 s2 (length s1) (length s2)"
    by (rule filled_cell) simp_all
  then show ?thesis
    unfolding calculateLevenshteinDistance_def Let_def m3_def m2_def m1_def m0_def by simp
qed

subsection \<open>The distance is the least number of edits\<close>

lemma lev_Nil2 [simp]: "lev xs [] = length xs"
  by (cases xs) simp_all

lemma lev_same [simp]: "lev xs xs = 0"
  by (induction xs) simp_all

lemma lev_insert_right: "lev a (c # xs) \<le> lev a xs + 1"
  by (cases a) simp_all

lemma lev_insert_left: "lev (x # a) ys \<le> lev a ys + 1"
  by (cases ys) simp_all

lemma lev_delete_right: "lev a xs \<le> lev a (c # xs) + 1"
proof (induction a)
  case Nil
  show ?case by simp
next
  case (Cons x a)
  have "lev (x # a) xs \<le> lev a xs + 1"
    by (rule lev_insert_left)
  with Cons show ?case
    by (auto simp: min_def)
qed

lemma lev_substitute_right: "lev a (d # xs) \<le> lev a (c # xs) + 1"
proof (induction a)
  case Nil
  show ?case by simp
next
  case (Cons x a)
  then show ?case
    by (auto simp: min_def)
qed

lemma lev_later:
  assumes "\<And>a. lev a ys' \<le> lev a ys + 1"
  shows "lev a (c # ys') \<le> lev a (c # ys) + 1"
proof (induction a)
  case Nil
  show ?case using assms [of "[]"] by simp
next
  case (Cons x a)
  show ?case
    using Cons assms [of a] assms [of "x # a"] by (auto simp: min_def)
qed

lemma lev_edit_step: "edit_step ys ys' \<Longrightarrow> lev a ys' \<le> lev a ys + 1"
proof (induction arbitrary: a rule: edit_step.induct)
  case (insertion xs c)
  show ?case by (rule lev_insert_right)
next
  case (deletion c xs)
  show ?case by (rule lev_delete_right)
next
  case (substitution c xs d)
  show ?case by (rule lev_substitute_right)
next
  case (later xs ys c)
  show ?case by (rule lev_later) (rule later.IH)
qed

lemma lev_lower: "(edit_step ^^ n) a b \<Longrightarrow> lev a b \<le> n"
proof (induction n arbitrary: b)
  case 0
  then show ?case by simp
next
  case (Suc n)
  then obtain b' where "(edit_step ^^ n) a b'" "edit_step b' b"
    by auto
  then have "lev a b' \<le> n" "lev a b \<le> lev a b' + 1"
    using Suc.IH lev_edit_step by blast+
  then show ?case by simp
qed

lemma edits_Cons: "(edit_step ^^ k) xs ys \<Longrightarrow> (edit_step ^^ k) (c # xs) (c # ys)"
proof (induction k arbitrary: ys)
  case 0
  then show ?case by simp
next
  case (Suc k)
  then obtain zs where "(edit_step ^^ k) xs zs" "edit_step zs ys"
    by auto
  then have "(edit_step ^^ k) (c # xs) (c # zs)" "edit_step (c # zs) (c # ys)"
    using Suc.IH by (auto intro: edit_step.later)
  then show ?case by auto
qed

lemma edits_insert_all: "(edit_step ^^ length ys) [] ys"
proof (induction ys)
  case Nil
  show ?case by simp
next
  case (Cons y ys)
  have "edit_step ys (y # ys)" by (rule edit_step.insertion)
  with Cons show ?case by auto
qed

lemma edits_delete_all: "(edit_step ^^ length xs) xs []"
proof (induction xs)
  case Nil
  show ?case by simp
next
  case (Cons x xs)
  have "edit_step (x # xs) xs" by (rule edit_step.deletion)
  with Cons show ?case
    by (simp only: length_Cons) (rule relpowp_Suc_I2)
qed

lemma lev_upper: "(edit_step ^^ lev a b) a b"
proof (induction a b rule: lev.induct)
  case (1 ys)
  show ?case by (simp add: edits_insert_all)
next
  case (2 x xs)
  show ?case using edits_delete_all [of "x # xs"] by simp
next
  case (3 x xs y ys)
  let ?del = "lev xs (y # ys) + 1" and ?ins = "lev (x # xs) ys + 1"
    and ?sub = "lev xs ys + (if x = y then 0 else 1)"
  have del: "(edit_step ^^ ?del) (x # xs) (y # ys)"
    using relpowp_Suc_I2 [OF edit_step.deletion [of x xs] "3.IH"(1)] by simp
  have ins: "(edit_step ^^ ?ins) (x # xs) (y # ys)"
    using relpowp_Suc_I [OF "3.IH"(2) edit_step.insertion [of ys y]] by simp
  have "(edit_step ^^ lev xs ys) (x # xs) (x # ys)"
    using "3.IH"(3) by (rule edits_Cons)
  then have sub: "(edit_step ^^ ?sub) (x # xs) (y # ys)"
    using relpowp_Suc_I [of "lev xs ys" edit_step "x # xs" "x # ys" "y # ys"]
      edit_step.substitution [of x ys y]
    by (cases "x = y") simp_all
  have "lev (x # xs) (y # ys) = ?del \<or> lev (x # xs) (y # ys) = ?ins
      \<or> lev (x # xs) (y # ys) = ?sub"
    by (auto simp: min_def)
  then show ?case
    using del ins sub by metis
qed

lemma edit_step_append: "edit_step xs ys \<Longrightarrow> edit_step (xs @ zs) (ys @ zs)"
  by (induction rule: edit_step.induct) (auto intro: edit_step.intros)

lemma edit_step_prepend: "edit_step xs ys \<Longrightarrow> edit_step (p @ xs) (p @ ys)"
  by (induction p) (auto intro: edit_step.later)

lemma edit_step_rev: "edit_step xs ys \<Longrightarrow> edit_step (rev xs) (rev ys)"
proof (induction rule: edit_step.induct)
  case (insertion xs c)
  show ?case
    using edit_step_prepend [OF edit_step.insertion [of "[]" c], of "rev xs"] by simp
next
  case (deletion c xs)
  show ?case
    using edit_step_prepend [OF edit_step.deletion [of c "[]"], of "rev xs"] by simp
next
  case (substitution c xs d)
  show ?case
    using edit_step_prepend [OF edit_step.substitution [of c "[]" d], of "rev xs"] by simp
next
  case (later xs ys c)
  then show ?case by (simp add: edit_step_append)
qed

lemma edits_rev: "(edit_step ^^ n) xs ys \<Longrightarrow> (edit_step ^^ n) (rev xs) (rev ys)"
proof (induction n arbitrary: ys)
  case 0
  then show ?case by simp
next
  case (Suc n)
  then obtain zs where "(edit_step ^^ n) xs zs" "edit_step zs ys"
    by auto
  then have "(edit_step ^^ n) (rev xs) (rev zs)" "edit_step (rev zs) (rev ys)"
    using Suc.IH edit_step_rev by blast+
  then show ?case by auto
qed

lemma prefix_distance_lev:
  "i \<le> length s1 \<Longrightarrow> j \<le> length s2 \<Longrightarrow>
   prefix_distance s1 s2 i j = lev (rev (take i s1)) (rev (take j s2))"
proof (induction s1 s2 i j rule: prefix_distance.induct)
  case (1 s1 s2 j)
  then show ?case by simp
next
  case (2 s1 s2 i)
  then show ?case by simp
next
  case (3 s1 s2 i j)
  then show ?case
    by (simp add: take_Suc_conv_app_nth)
qed

lemma levenshtein_lev: "calculateLevenshteinDistance a b = lev (rev a) (rev b)"
  by (simp add: levenshtein_prefix_distance prefix_distance_lev)

lemma levenshtein_reached: "(edit_step ^^ calculateLevenshteinDistance a b) a b"
  using edits_rev [OF lev_upper [of "rev a" "rev b"]] by (simp add: levenshtein_lev)

lemma levenshtein_least: "(edit_step ^^ n) a b \<Longrightarrow> calculateLevenshteinDistance a b \<le> n"
  unfolding levenshtein_lev by (rule lev_lower) (rule edits_rev)

text \<open>
  Claim C9. The distance that \<open>_calculateLevenshteinDistance\<close> returns is the minimum
  number of single-character insertions, deletions and substitutions that turn \<open>a\<close> into
  \<open>b\<close>: that many edits do it, and no smaller number does. It is a natural number.
\<close>

theorem levenshtein_minimum_edits:
  "(edit_step ^^ calculateLevenshteinDistance a b) a b \<and>
   (\<forall>n. (edit_step ^^ n) a b \<longrightarrow> calculateLevenshteinDistance a b \<le> n)"
proof (intro conjI allI impI)
  show "(edit_step ^^ calculateLevenshteinDistance a b) a b"
    by (rule levenshtein_reached)
next
  fix n
  assume "(edit_step ^^ n) a b"
  then show "calculateLevenshteinDistance a b \<le> n"
    by (rule levenshtein_least)
qed

theorem levenshtein_minimum_edits_witness:
  "(edit_step ^^ 1) ''cut'' ''cuts'' \<and> calculateLevenshteinDistance ''cut'' ''cuts'' \<le> 1 \<and>
   (edit_step ^^ calculateLevenshteinDistance ''cut'' ''cuts'') ''cut'' ''cuts''"
proof -
  have "edit_step [] ''s''"
    by (rule edit_step.insertion)
  then have "edit_step ''cut'' ''cuts''"
    by (intro edit_step.later)
  then have one: "(edit_step ^^ 1) ''cut'' ''cuts''"
    by auto
  with levenshtein_minimum_edits [of "''cut''" "''cuts''"] show ?thesis
    by blast
qed

subsection \<open>Loading a catalog\<close>

lemma intents_record_metric [simp]: "intents (record_metric ev s) = intents s"
  unfolding record_metric_def by simp

lemma loadIntents_try_cases:
  "(\<exists>e. loadIntents_try d s = (Inl e, s)) \<or>
   loadIntents_try d s = (Inr (), s\<lparr>intents := get_prop d ''intents''\<rparr>)"
  unfolding loadIntents_try_def by (simp split: sum.splits)

lemma loadIntents_failure:
  assumes "fst (loadIntents d s) = Inl e"
  shows "intents (snd (loadIntents d s)) = intents s"
  using loadIntents_try_cases [of d s] assms
  unfolding loadIntents_def by (auto simp: Let_def)

text \<open>
  Claim C10. When \<open>loadIntents\<close> fails, the installed catalog is the one of before the
  call: the catalog is assigned only after every check has passed.
\<close>

theorem loadIntents_failure_keeps_catalog:
  "fst (loadIntents intentsData s) = Inl e \<Longrightarrow>
   intents (snd (loadIntents intentsData s)) = intents s"
  by (rule loadIntents_failure)

theorem loadIntents_failure_keeps_catalog_witness:
  "fst (loadIntents (JObj [(''intents'', JArr [])]) sample_service)
     = Inl (IntentLoadError ''Intent data is empty'') \<and>
   intents (snd (loadIntents (JObj [(''intents'', JArr [])]) sample_service))
     = JArr [cuts_intent]"
proof -
  have failed: "fst (loadIntents (JObj [(''intents'', JArr [])]) sample_service)
      = Inl (IntentLoadError ''Intent data is empty'')"
    by (simp add: loadIntents_def loadIntents_try_def)
  from loadIntents_failure_keeps_catalog [OF failed] failed show ?thesis
    by (simp add: sample_service_def)
qed

lemma validate_intents_Inl:
  "validate_intents es = Inl e \<longleftrightarrow>
   (\<exists>pre x post. es = pre @ x # post \<and> (\<forall>y \<in> set pre. validate_intent y = Inr ())
      \<and> validate_intent x = Inl e)"
proof (induction es)
  case Nil
  show ?case by simp
next
  case (Cons a es)
  show ?case
  proof (cases "validate_intent a")
    case (Inl e')
    have "(\<exists>pre x post. a # es = pre @ x # post \<and> (\<forall>y \<in> set pre. validate_intent y = Inr ())
        \<and> validate_intent x = Inl e) \<longleftrightarrow> e' = e"
    proof
      assume "\<exists>pre x post. a # es = pre @ x # post \<and>
          (\<forall>y \<in> set pre. validate_intent y = Inr ()) \<and> validate_intent x = Inl e"
      then obtain pre x post where *: "a # es = pre @ x # post"
          "\<forall>y \<in> set pre. validate_intent y = Inr ()" "validate_intent x = Inl e"
        by blast
      show "e' = e"
      proof (cases pre)
        case Nil
        with * Inl show ?thesis by simp
      next
        case (Cons p ps)
        with * Inl show ?thesis by simp
      qed
    next
      assume "e' = e"
      with Inl have "a # es = [] @ a # es \<and> (\<forall>y \<in> set []. validate_intent y = Inr ())
          \<and> validate_intent a = Inl e"
        by simp
      then show "\<exists>pre x post. a # es = pre @ x # post \<and>
          (\<forall>y \<in> set pre. validate_intent y = Inr ()) \<and> validate_intent x = Inl e"
        by blast
    qed
    with Inl show ?thesis by auto
  next
    case (Inr u)
    have "(\<exists>pre x post. a # es = pre @ x # post \<and> (\<forall>y \<in> set pre. validate_intent y = Inr ())
        \<and> validate_intent x = Inl e) \<longleftrightarrow>
      (\<exists>pre x post. es = pre @ x # post \<and> (\<forall>y \<in> set pre. validate_intent y = Inr ())
        \<and> validate_intent x = Inl e)"
    proof
      assume "\<exists>pre x post. a # es = pre @ x # post \<and>
          (\<forall>y \<in> set pre. validate_intent y = Inr ()) \<and> validate_intent x = Inl e"
      then obtain pre x post where *: "a # es = pre @ x # post"
          "\<forall>y \<in> set pre. validate_intent y = Inr ()" "validate_intent x = Inl e"
        by blast
      show "\<exists>pre x post. es = pre @ x # post \<and>
          (\<forall>y \<in> set pre. validate_intent y = Inr ()) \<and> validate_intent x = Inl e"
      proof (cases pre)
        case Nil
        with * Inr show ?thesis by simp
      next
        case (Cons p ps)
        with * have "es = ps @ x # post" "\<forall>y \<in> set ps. validate_intent y = Inr ()"
          by simp_all
        with *(3) show ?thesis by blast
      qed
    next
      assume "\<exists>pre x post. es = pre @ x # post \<and>
          (\<forall>y \<in> set pre. validate_intent y = Inr ()) \<and> validate_intent x = Inl e"
      then obtain pre x post where *: "es = pre @ x # post"
          "\<forall>y \<in> set pre. validate_intent y = Inr ()" "validate_intent x = Inl e"
        by blast
      with Inr have "a # es = (a # pre) @ x # post"
          "\<forall>y \<in> set (a # pre). validate_intent y = Inr ()"
        by simp_all
      with *(3) show "\<exists>pre x post. a # es = pre @ x # post \<and>
          (\<forall>y \<in> set pre. validate_intent y = Inr ()) \<and> validate_intent x = Inl e"
        by blast
    qed
    with Inr Cons.IH show ?thesis by simp
  qed
qed

lemma validate_intents_Inr:
  "validate_intents es = Inr u \<longleftrightarrow> (\<forall>x \<in> set es. validate_intent x = Inr ())"
  by (induction es) (auto split: sum.splits)

lemma validate_intent_error_kind:
  "validate_intent x = Inl e \<Longrightarrow> (\<exists>m. e = TypeError m) \<or> (\<exists>m. e = IntentLoadError m)"
  unfolding validate_intent_def cannot_read_def by (auto split: if_splits)

lemma validate_intent_missing:
  "missing_required x \<Longrightarrow> \<exists>e. validate_intent x = Inl e"
  unfolding validate_intent_def missing_required_def by auto

lemma validate_intent_missing_message:
  "missing_required x \<Longrightarrow> \<not> nullish x \<Longrightarrow>
   validate_intent x =
     Inl (IntentLoadError ''Invalid intent structure: missing required properties'')"
  unfolding validate_intent_def missing_required_def by auto

lemma loadIntents_array:
  assumes "get_prop d ''intents'' = JArr es" "validate_intents es = Inl e"
  shows "fst (loadIntents d s) =
      Inl (if instanceofChatbotError e then e
           else IntentLoadError (''Failed to load intent data: '' @ message e))"
proof -
  obtain kvs where d: "d = JObj kvs"
    using assms(1) by (cases d) simp_all
  have "es \<noteq> []"
    using assms(2) by auto
  then have "loadIntents_try d s = (Inl e, s)"
    unfolding loadIntents_try_def using assms d by simp
  then show ?thesis
    unfolding loadIntents_def by (simp add: Let_def)
qed

lemma loadIntents_rejects:
  assumes "get_prop d ''intents'' = JArr es" "x \<in> set es" "missing_required x"
  shows "\<exists>msg. fst (loadIntents d s) = Inl (IntentLoadError msg)"
proof -
  have "\<not> (\<forall>y \<in> set es. validate_intent y = Inr ())"
    using assms(2) validate_intent_missing [OF assms(3)] by force
  then obtain e where e: "validate_intents es = Inl e"
    using validate_intents_Inr [of es "()"] by (cases "validate_intents es") auto
  then obtain y where "validate_intent y = Inl e"
    using validate_intents_Inl [of es e] by blast
  then have "(\<exists>m. e = TypeError m) \<or> (\<exists>m. e = IntentLoadError m)"
    by (rule validate_intent_error_kind)
  then show ?thesis
    using loadIntents_array [OF assms(1) e, of s] by auto
qed

lemma loadIntents_first_missing:
  assumes "get_prop d ''intents'' = JArr (pre @ x # post)"
    and "\<forall>y \<in> set pre. validate_intent y = Inr ()"
    and "missing_required x" "\<not> nullish x"
  shows "fst (loadIntents d s) =
      Inl (IntentLoadError ''Invalid intent structure: missing required properties'')"
proof -
  have "validate_intents (pre @ x # post) =
      Inl (IntentLoadError ''Invalid intent structure: missing required properties'')"
    using validate_intents_Inl assms(2) validate_intent_missing_message [OF assms(3,4)]
    by blast
  from loadIntents_array [OF assms(1) this, of s] show ?thesis by simp
qed

text \<open>
  Claim C6, as amended. A catalog whose \<open>intents\<close> array has an entry with a missing or
  falsy \<open>tag\<close>, \<open>patterns\<close> or \<open>responses\<close> is rejected with an \<open>IntentLoadError\<close> and
  nothing is installed; the message is the one of the missing properties when that entry
  is an object and the entries before it are valid. An empty array of patterns or of
  responses is not missing.
\<close>

theorem loadIntents_rejects_missing_properties:
  assumes "get_prop intentsData ''intents'' = JArr es" "x \<in> set es" "missing_required x"
  shows "(\<exists>msg. fst (loadIntents intentsData s) = Inl (IntentLoadError msg)) \<and>
         intents (snd (loadIntents intentsData s)) = intents s \<and>
         (\<forall>pre post. es = pre @ x # post \<and> (\<forall>y \<in> set pre. validate_intent y = Inr ())
              \<and> \<not> nullish x \<longrightarrow>
            fst (loadIntents intentsData s) =
              Inl (IntentLoadError ''Invalid intent structure: missing required properties''))"
proof (intro conjI allI impI)
  show rejected: "\<exists>msg. fst (loadIntents intentsData s) = Inl (IntentLoadError msg)"
    using assms by (rule loadIntents_rejects)
  then show "intents (snd (loadIntents intentsData s)) = intents s"
    using loadIntents_failure by blast
next
  fix pre post
  assume "es = pre @ x # post \<and> (\<forall>y \<in> set pre. validate_intent y = Inr ()) \<and> \<not> nullish x"
  then show "fst (loadIntents intentsData s) =
      Inl (IntentLoadError ''Invalid intent structure: missing required properties'')"
    using assms(1,3) loadIntents_first_missing by blast
qed

theorem loadIntents_rejects_missing_properties_witness:
  "fst (loadIntents (JObj [(''intents'', JArr [cuts_intent, JObj [(''tag'', JStr ''Fever'')]])])
         sample_service)
     = Inl (IntentLoadError ''Invalid intent structure: missing required properties'') \<and>
   intents (snd (loadIntents
         (JObj [(''intents'', JArr [cuts_intent, JObj [(''tag'', JStr ''Fever'')]])])
         sample_service)) = JArr [cuts_intent]"
proof -
  let ?x = "JObj [(''tag'', JStr ''Fever'')]"
  let ?d = "JObj [(''intents'', JArr [cuts_intent, ?x])]"
  have a: "get_prop ?d ''intents'' = JArr [cuts_intent, ?x]"
    by simp
  have b: "?x \<in> set [cuts_intent, ?x]"
    by simp
  have c: "missing_required ?x"
    by (simp add: missing_required_def)
  have d: "[cuts_intent, ?x] = [cuts_intent] @ ?x # [] \<and>
      (\<forall>y \<in> set [cuts_intent]. validate_intent y = Inr ()) \<and> \<not> nullish ?x"
    by (simp add: validate_intent_def cuts_intent_def)
  from loadIntents_rejects_missing_properties [OF a b c, of sample_service] d
  have "fst (loadIntents ?d sample_service) =
      Inl (IntentLoadError ''Invalid intent structure: missing required properties'')"
    and "intents (snd (loadIntents ?d sample_service)) = intents sample_service"
    by blast+
  then show ?thesis
    by (simp add: sample_service_def)
qed

text \<open>
  An entry whose \<open>patterns\<close> and \<open>responses\<close> are empty arrays is loaded; and an entry
  with missing properties that comes after an entry whose patterns are not an array fails
  with the message of the arrays.
\<close>

theorem loadIntents_accepts_empty_arrays:
  "fst (loadIntents
          (JObj [(''intents'',
             JArr [JObj [(''tag'', JStr ''Cuts''), (''patterns'', JArr []),
                         (''responses'', JArr [])]])])
          (new_service None)) = Inr () \<and>
   fst (loadIntents
          (JObj [(''intents'',
             JArr [JObj [(''tag'', JStr ''Cuts''), (''patterns'', JStr ''cut''),
                         (''responses'', JStr ''wash'')],
                   JObj [(''tag'', JStr ''Fever'')]])])
          (new_service None))
     = Inl (IntentLoadError ''Invalid intent structure: patterns and responses must be arrays'')"
  by (simp add: loadIntents_def loadIntents_try_def validate_intent_def new_service_def
      record_metric_def)

subsection \<open>The preconditions of \<open>findMatchingIntent\<close>\<close>

lemma findMatchingIntent_falsy:
  "\<not> truthy q \<Longrightarrow> findMatchingIntent q s = Inr JNull"
  unfolding findMatchingIntent_def find_best_match_def by simp

lemma findMatchingIntent_not_string:
  "truthy q \<Longrightarrow> \<not> is_string q \<Longrightarrow>
   findMatchingIntent q s = Inl (IntentMatchError ''Query must be a string'')"
  unfolding findMatchingIntent_def find_best_match_def by simp

lemma findMatchingIntent_no_intents:
  "truthy q \<Longrightarrow> is_string q \<Longrightarrow>
   \<not> truthy (intents s) \<or> \<not> isArray (intents s) \<or> elements (intents s) = [] \<Longrightarrow>
   findMatchingIntent q s = Inl (IntentMatchError ''No intents available for matching'')"
  unfolding findMatchingIntent_def find_best_match_def by auto

lemma findMatchingIntent_blank:
  "truthy q \<Longrightarrow> is_string q \<Longrightarrow> isArray (intents s) \<Longrightarrow> elements (intents s) \<noteq> [] \<Longrightarrow>
   trim (toLowerCase (chars q)) = [] \<Longrightarrow> findMatchingIntent q s = Inr JNull"
  unfolding findMatchingIntent_def find_best_match_def by (cases "intents s") auto

text \<open>
  Claim C5, as amended. The checks come in this order: a falsy query (\<^verbatim>\<open>undefined\<close>,
  \<^verbatim>\<open>null\<close>, \<^verbatim>\<open>false\<close>, \<open>0\<close>, \<^verbatim>\<open>NaN\<close>, the empty string) gives \<^verbatim>\<open>null\<close>; any
  other query that is not a string fails with \<open>Query must be a string\<close>; a non-empty string
  fails with \<open>No intents available for matching\<close> when the catalog is missing, not an
  array or empty; and a non-empty string that is empty after trimming gives \<^verbatim>\<open>null\<close>
  when the catalog is a non-empty array.
\<close>

theorem findMatchingIntent_preconditions:
  "(\<not> truthy q \<longrightarrow> findMatchingIntent q s = Inr JNull) \<and>
   (truthy q \<and> \<not> is_string q \<longrightarrow>
      findMatchingIntent q s = Inl (IntentMatchError ''Query must be a string'')) \<and>
   (truthy q \<and> is_string q \<and>
      (\<not> truthy (intents s) \<or> \<not> isArray (intents s) \<or> elements (intents s) = []) \<longrightarrow>
      findMatchingIntent q s = Inl (IntentMatchError ''No intents available for matching'')) \<and>
   (truthy q \<and> is_string q \<and> isArray (intents s) \<and> elements (intents s) \<noteq> [] \<and>
      trim (toLowerCase (chars q)) = [] \<longrightarrow>
      findMatchingIntent q s = Inr JNull)"
  using findMatchingIntent_falsy findMatchingIntent_not_string findMatchingIntent_no_intents
    findMatchingIntent_blank by blast

theorem findMatchingIntent_preconditions_witness:
  "findMatchingIntent JUndefined sample_service = Inr JNull \<and>
   findMatchingIntent (JNum 7) sample_service
     = Inl (IntentMatchError ''Query must be a string'') \<and>
   findMatchingIntent (JStr ''fever'') (new_service None)
     = Inl (IntentMatchError ''No intents available for matching'') \<and>
   findMatchingIntent (JStr ''  '') sample_service = Inr JNull"
proof -
  have a: "\<not> truthy JUndefined"
    by simp
  have b: "truthy (JNum 7) \<and> \<not> is_string (JNum 7)"
    by simp
  have c: "truthy (JStr ''fever'') \<and> is_string (JStr ''fever'') \<and>
      (\<not> truthy (intents (new_service None)) \<or> \<not> isArray (intents (new_service None))
       \<or> elements (intents (new_service None)) = [])"
    by (simp add: new_service_def)
  have d: "truthy (JStr ''  '') \<and> is_string (JStr ''  '') \<and> isArray (intents sample_service)
      \<and> elements (intents sample_service) \<noteq> [] \<and> trim (toLowerCase (chars (JStr ''  ''))) = []"
    by (simp add: sample_service_def trim_def toLowerCase_def lower_char_def is_whitespace_def)
  have "findMatchingIntent JUndefined sample_service = Inr JNull"
    using findMatchingIntent_preconditions [of JUndefined sample_service, THEN conjunct1] a
    by (rule mp)
  moreover have "findMatchingIntent (JNum 7) sample_service
      = Inl (IntentMatchError ''Query must be a string'')"
    using findMatchingIntent_preconditions
      [of "JNum 7" sample_service, THEN conjunct2, THEN conjunct1] b
    by (rule mp)
  moreover have "findMatchingIntent (JStr ''fever'') (new_service None)
      = Inl (IntentMatchError ''No intents available for matching'')"
    using findMatchingIntent_preconditions
      [of "JStr ''fever''" "new_service None", THEN conjunct2, THEN conjunct2, THEN conjunct1] c
    by (rule mp)
  moreover have "findMatchingIntent (JStr ''  '') sample_service = Inr JNull"
    using findMatchingIntent_preconditions
      [of "JStr ''  ''" sample_service, THEN conjunct2, THEN conjunct2, THEN conjunct2] d
    by (rule mp)
  ultimately show ?thesis
    by (intro conjI)
qed

text \<open>
  \<^verbatim>\<open>null\<close> is not a string and is answered with \<^verbatim>\<open>null\<close>, not with an error; the
  empty string is answered with \<^verbatim>\<open>null\<close> on an empty catalog; and a blank string fails
  on an empty catalog.
\<close>

theorem findMatchingIntent_null_query_counterexample:
  "\<not> is_string JNull \<and> findMatchingIntent JNull sample_service = Inr JNull \<and>
   findMatchingIntent (JStr '''') (new_service None) = Inr JNull \<and>
   trim (toLowerCase ''  '') = [] \<and>
   findMatchingIntent (JStr ''  '') (new_service None)
     = Inl (IntentMatchError ''No intents available for matching'')"
  by (simp add: findMatchingIntent_def find_best_match_def new_service_def trim_def
      toLowerCase_def lower_char_def is_whitespace_def)

subsection \<open>Similarity\<close>

lemma lev_le_max: "lev xs ys \<le> max (length xs) (length ys)"
  by (induction xs ys rule: lev.induct) auto

lemma levenshtein_le_max:
  "calculateLevenshteinDistance a b \<le> max (length a) (length b)"
  using lev_le_max [of "rev a" "rev b"] by (simp add: levenshtein_lev)

lemma levenshtein_same: "calculateLevenshteinDistance a a = 0"
  by (simp add: levenshtein_lev)

lemma edit_step_sym: "edit_step xs ys \<Longrightarrow> edit_step ys xs"
  by (induction rule: edit_step.induct) (auto intro: edit_step.intros)

lemma edits_sym: "(edit_step ^^ n) xs ys \<Longrightarrow> (edit_step ^^ n) ys xs"
proof (induction n arbitrary: ys)
  case 0
  then show ?case by simp
next
  case (Suc n)
  then obtain zs where "(edit_step ^^ n) xs zs" "edit_step zs ys"
    by auto
  then have "edit_step ys zs" "(edit_step ^^ n) zs xs"
    using Suc.IH edit_step_sym by blast+
  then show ?case
    by (rule relpowp_Suc_I2)
qed

lemma levenshtein_sym: "calculateLevenshteinDistance a b = calculateLevenshteinDistance b a"
  using levenshtein_least [OF edits_sym [OF levenshtein_reached [of a b]]]
    levenshtein_least [OF edits_sym [OF levenshtein_reached [of b a]]]
  by simp

lemma levenshtein_eq_lev: "calculateLevenshteinDistance a b = lev a b"
proof (rule antisym)
  show "calculateLevenshteinDistance a b \<le> lev a b"
    by (rule levenshtein_least) (rule lev_upper)
  show "lev a b \<le> calculateLevenshteinDistance a b"
    by (rule lev_lower) (rule levenshtein_reached)
qed

lemma fdiv_same: "n \<noteq> 0 \<Longrightarrow> fdiv (of_nat n) (of_nat n) = 1"
  by (simp add: fdiv_def)

lemma fdiv_unit_interval:
  assumes "0 \<le> a" "a \<le> b"
  shows "0 \<le> fdiv a b \<and> fdiv a b \<le> 1"
proof (cases "b = 0")
  case True
  then show ?thesis by (simp add: fdiv_def)
next
  case False
  with assms have "0 \<le> a / b" "a / b \<le> 1"
    by (simp_all add: divide_le_eq_1)
  then show ?thesis
    unfolding fdiv_def by (simp add: fl_nonneg fl_le_1)
qed

lemma fsub_unit_interval:
  assumes "0 \<le> x" "x \<le> 1"
  shows "0 \<le> fsub 1 x \<and> fsub 1 x \<le> 1"
  using assms unfolding fsub_def by (simp add: fl_nonneg fl_le_1)

lemma similarity_formula:
  assumes "a \<noteq> [] \<or> b \<noteq> []"
  shows "calculateStringSimilarity a b =
     fsub 1 (fdiv (of_nat (calculateLevenshteinDistance a b))
               (of_nat (max (length a) (length b))))"
proof (cases "a = [] \<or> b = []")
  case True
  with assms consider "a = []" "b \<noteq> []" | "b = []" "a \<noteq> []"
    by blast
  then show ?thesis
  proof cases
    case 1
    then show ?thesis
      unfolding calculateStringSimilarity_def
      by (simp add: levenshtein_lev fdiv_same fsub_def)
  next
    case 2
    then show ?thesis
      unfolding calculateStringSimilarity_def
      by (simp add: levenshtein_lev fdiv_same fsub_def)
  qed
next
  case False
  then show ?thesis
    unfolding calculateStringSimilarity_def by (auto simp: Let_def)
qed

lemma similarity_sym: "calculateStringSimilarity a b = calculateStringSimilarity b a"
  unfolding calculateStringSimilarity_def using levenshtein_sym [of a b]
  by (simp add: Let_def max.commute)

lemma similarity_same: "a \<noteq> [] \<Longrightarrow> calculateStringSimilarity a a = 1"
  unfolding calculateStringSimilarity_def
  by (simp add: levenshtein_same Let_def fdiv_def fsub_def)

lemma similarity_empty: "calculateStringSimilarity a [] = 0"
  unfolding calculateStringSimilarity_def by simp

lemma similarity_bounds:
  "0 \<le> calculateStringSimilarity a b \<and> calculateStringSimilarity a b \<le> 1"
proof (cases "a = [] \<or> b = []")
  case True
  then show ?thesis
    unfolding calculateStringSimilarity_def by auto
next
  case False
  have "(of_nat (calculateLevenshteinDistance a b) :: rat) \<le> of_nat (max (length a) (length b))"
    using levenshtein_le_max [of a b] by (simp only: of_nat_le_iff)
  then have "0 \<le> fdiv (of_nat (calculateLevenshteinDistance a b))
        (of_nat (max (length a) (length b))) \<and>
      fdiv (of_nat (calculateLevenshteinDistance a b))
        (of_nat (max (length a) (length b))) \<le> 1"
    by (intro fdiv_unit_interval) simp_all
  then show ?thesis
    using False similarity_formula [of a b] fsub_unit_interval by auto
qed

lemma similarity_spec:
  "a \<noteq> [] \<Longrightarrow> b \<noteq> [] \<Longrightarrow> calculateStringSimilarity a b = spec_similarity a b"
  unfolding calculateStringSimilarity_def spec_similarity_def
  by (simp add: levenshtein_eq_lev Let_def)

text \<open>
  Claim C3, at the two empty strings: \<open>_calculateStringSimilarity\<close> returns 0 there, from
  its first line, and the line that returns 1 for a maximal length of 0 is never reached.
  For every other pair of strings the formula, the symmetry and the value 1 on equal
  strings hold (\<open>similarity_formula\<close>, \<open>similarity_sym\<close>, \<open>similarity_same\<close>,
  \<open>similarity_empty\<close>).
\<close>

theorem similarity_of_empty_strings:
  "calculateStringSimilarity [] [] = 0 \<and> calculateStringSimilarity [] [] \<noteq> 1"
  by (simp add: calculateStringSimilarity_def)

subsection \<open>What \<open>findMatchingIntent\<close> can return\<close>



subsection \<open>The result of \<open>generateResponse\<close>\<close>





lemma generateResponse_no_responses:
  "truthy q \<Longrightarrow> is_string q \<Longrightarrow> findMatchingIntent q s = Inr m \<Longrightarrow> truthy m \<Longrightarrow>
   \<not> truthy (get_prop m ''responses'') \<or> \<not> isArray (get_prop m ''responses'')
     \<or> elements (get_prop m ''responses'') = [] \<Longrightarrow>
   fst (generateResponse toText q random s) = Inr internal_error"
  unfolding generateResponse_def generateResponse_try_def internal_error_def
  by (auto simp: Let_def)

lemma generateResponse_picked:
  assumes "truthy q" "is_string q" "findMatchingIntent q s = Inr m" "truthy m"
    and "get_prop m ''responses'' = JArr rs" "rs \<noteq> []"
  shows "fst (generateResponse toText q random s) =
     Inr (if is_string (js_nth rs (randomIndex random (length rs)))
             \<and> trim (chars (js_nth rs (randomIndex random (length rs)))) \<noteq> []
          then \<lparr>answer = js_nth rs (randomIndex random (length rs)),
                intent = get_prop m ''tag'', error = JNull\<rparr>
          else internal_error)"
  using assms
  unfolding generateResponse_def generateResponse_try_def internal_error_def
  by (simp add: Let_def)

lemma findMatchingIntent_Inr_string:
  "findMatchingIntent q s = Inr m \<Longrightarrow> truthy q \<Longrightarrow> is_string q"
  using findMatchingIntent_not_string [of q s] by auto

subsection \<open>The words of a query\<close>

lemma dropWhile_rev_last:
  assumes "\<not> P x"
  shows "\<exists>zs. rev (dropWhile P (rev (x # xs))) = x # zs"
proof (cases "\<forall>y \<in> set (rev xs). P y")
  case True
  then have "dropWhile P (rev xs @ [x]) = [x]"
    using assms by (simp add: dropWhile_append)
  then show ?thesis by simp
next
  case False
  then have "dropWhile P (rev xs @ [x]) = dropWhile P (rev xs) @ [x]"
    by (simp add: dropWhile_append)
  then have "rev (dropWhile P (rev (x # xs))) = x # rev (dropWhile P (rev xs))"
    by simp
  then show ?thesis by blast
qed

lemma trim_first_char:
  assumes "trim s \<noteq> []"
  shows "\<exists>c cs. trim s = c # cs \<and> \<not> is_whitespace c"
proof (cases "dropWhile is_whitespace s")
  case Nil
  with assms show ?thesis
    unfolding trim_def by simp
next
  case (Cons x xs)
  then have x: "\<not> is_whitespace x"
    using hd_dropWhile [of is_whitespace s] by (metis list.distinct(1) list.sel(1))
  then obtain zs where "rev (dropWhile is_whitespace (rev (x # xs))) = x # zs"
    using dropWhile_rev_last [of is_whitespace x xs] by blast
  with Cons x show ?thesis
    unfolding trim_def by simp
qed

lemma split_nonempty: "split sep s \<noteq> []"
  by (induction s) (auto split: list.splits)

lemma split_first_word:
  "c \<noteq> sep \<Longrightarrow> \<exists>w ws. split sep (c # cs) = (c # w) # ws"
  using split_nonempty [of sep cs] by (cases "split sep cs") auto

lemma words_of_trim_nonempty:
  assumes "trim s \<noteq> []"
  shows "words_of (trim s) \<noteq> []"
proof -
  obtain c cs where c: "trim s = c # cs" "\<not> is_whitespace c"
    using trim_first_char [OF assms] by blast
  then have "c \<noteq> CHR '' ''"
    by (auto simp: is_whitespace_def)
  then obtain w ws where "split CHR '' '' (c # cs) = (c # w) # ws"
    using split_first_word by blast
  then show ?thesis
    unfolding words_of_def c(1) by simp
qed

subsection \<open>The loops of the scorer, in closed form\<close>

lemma fold_max_bounds:
  assumes "lo \<le> b" "b \<le> hi" "\<forall>x \<in> set xs. lo \<le> f x \<and> f x \<le> hi"
  shows "lo \<le> fold (\<lambda>x best. max best (f x)) xs b \<and> fold (\<lambda>x best. max best (f x)) xs b \<le> hi"
  using assms by (induction xs arbitrary: b) (auto simp: max_def)

lemma fold_max_Max:
  "fold (\<lambda>x best. max best (f x)) xs (b :: rat) = Max (insert b (f ` set xs))"
proof (induction xs arbitrary: b)
  case Nil
  show ?case by simp
next
  case (Cons x xs)
  have "Max (insert (max b (f x)) (f ` set xs)) = Max (insert b (insert (f x) (f ` set xs)))"
    by (cases "f ` set xs = {}") (simp_all add: max.assoc)
  with Cons show ?case by simp
qed

lemma bestWordScore_bounds:
  "0 \<le> bestWordScore qw pws \<and> bestWordScore qw pws \<le> 1"
  unfolding bestWordScore_def
  by (rule fold_max_bounds) (simp_all add: similarity_bounds)

lemma fold_word_step:
  "fold (word_step pws) qws acc =
     (fold (\<lambda>x total. fadd total x) (map (\<lambda>qw. bestWordScore qw pws) qws) (fst acc),
      snd acc + length (filter (\<lambda>qw. bestWordScore qw pws > fl (6 / 10)) qws))"
  by (induction qws arbitrary: acc) (simp_all add: word_step_def Let_def)

subsection \<open>Bounds of the scores\<close>

lemma fadd_nonneg: "0 \<le> a \<Longrightarrow> 0 \<le> b \<Longrightarrow> 0 \<le> fadd a b"
  unfolding fadd_def by (simp add: fl_nonneg)

lemma fadd_mono:
  "0 \<le> a \<Longrightarrow> a \<le> a' \<Longrightarrow> 0 \<le> b \<Longrightarrow> b \<le> b' \<Longrightarrow> fadd a b \<le> fadd a' b'"
  unfolding fadd_def by (intro fl_mono) simp_all

lemma fmul_nonneg: "0 \<le> a \<Longrightarrow> 0 \<le> b \<Longrightarrow> 0 \<le> fmul a b"
  unfolding fmul_def by (simp add: fl_nonneg)

lemma fmul_le:
  assumes "0 \<le> a" "a \<le> 1" "0 \<le> c"
  shows "fmul a c \<le> fl c"
proof -
  have "a * c \<le> 1 * c"
    using assms by (intro mult_right_mono) simp_all
  then show ?thesis
    unfolding fmul_def using assms by (intro fl_mono) simp_all
qed

lemma fdiv_nonneg: "0 \<le> a \<Longrightarrow> 0 \<le> b \<Longrightarrow> 0 \<le> fdiv a b"
  unfolding fdiv_def by (simp add: fl_nonneg)

lemma fdiv_mono:
  "0 \<le> a \<Longrightarrow> a \<le> a' \<Longrightarrow> 0 < c \<Longrightarrow> fdiv a c \<le> fdiv a' c"
  unfolding fdiv_def by (intro fl_mono) (simp_all add: divide_right_mono)

lemma fl_past_integers: "fl (2 ^ 53 + 1) = 2 ^ 53"
  by (rule fl_evalI [where e = 53 and m = "2 ^ 52"]) simp_all

lemma accumulate_bounds:
  assumes "\<forall>x \<in> set xs. 0 \<le> x \<and> x \<le> 1" "0 \<le> a" "a \<le> of_nat j" "a \<le> 2 ^ 53"
  shows "0 \<le> fold (\<lambda>x total. fadd total x) xs a \<and>
         fold (\<lambda>x total. fadd total x) xs a \<le> of_nat (j + length xs)"
  using assms
proof (induction xs arbitrary: a j)
  case Nil
  then show ?case by simp
next
  case (Cons x xs)
  have x: "0 \<le> x" "x \<le> 1"
    using Cons.prems(1) by simp_all
  have nonneg: "0 \<le> fadd a x"
    using Cons.prems(2) x by (simp add: fadd_nonneg)
  have upper: "fadd a x \<le> of_nat (Suc j) \<and> fadd a x \<le> 2 ^ 53"
  proof (cases "Suc j \<le> 2 ^ 53")
    case True
    have "a + x \<le> of_nat (Suc j)"
      using Cons.prems(3) x by simp
    then have "fl (a + x) \<le> fl (of_nat (Suc j))"
      using Cons.prems(2) x by (intro fl_mono) simp_all
    also have "\<dots> = of_nat (Suc j)"
      using True by (rule fl_of_nat)
    finally have "fadd a x \<le> of_nat (Suc j)"
      unfolding fadd_def .
    moreover have "(of_nat (Suc j) :: rat) \<le> of_nat (2 ^ 53)"
      using True by (simp only: of_nat_le_iff)
    ultimately show ?thesis by simp
  next
    case False
    have "a + x \<le> 2 ^ 53 + 1"
      using Cons.prems(4) x by simp
    then have "fl (a + x) \<le> fl (2 ^ 53 + 1)"
      using Cons.prems(2) x by (intro fl_mono) simp_all
    then have le: "fadd a x \<le> 2 ^ 53"
      unfolding fadd_def fl_past_integers .
    have "(of_nat (2 ^ 53) :: rat) \<le> of_nat (Suc j)"
      using False by (simp only: of_nat_le_iff)
    with le show ?thesis by simp
  qed
  from Cons.IH [of "fadd a x" "Suc j"] Cons.prems(1) nonneg upper show ?case
    by simp
qed

lemma average_bounds:
  assumes "\<forall>x \<in> set xs. 0 \<le> x \<and> x \<le> 1"
  shows "0 \<le> fdiv (fold (\<lambda>x total. fadd total x) xs 0) (of_nat (length xs)) \<and>
         fdiv (fold (\<lambda>x total. fadd total x) xs 0) (of_nat (length xs)) \<le> 1"
proof -
  have "0 \<le> fold (\<lambda>x total. fadd total x) xs 0 \<and>
      fold (\<lambda>x total. fadd total x) xs 0 \<le> of_nat (0 + length xs)"
    using assms by (intro accumulate_bounds) simp_all
  then show ?thesis
    by (intro fdiv_unit_interval) simp_all
qed

lemma best_match_word_upto:
  assumes "n \<le> length pws"
  shows "0 \<le> fst (fold (best_match_step qw pws) [0..<n] (0, -1)) \<and>
         fst (fold (best_match_step qw pws) [0..<n] (0, -1)) \<le> 1 \<and>
         -1 \<le> snd (fold (best_match_step qw pws) [0..<n] (0, -1)) \<and>
         snd (fold (best_match_step qw pws) [0..<n] (0, -1)) < int n \<and>
         (0 < fst (fold (best_match_step qw pws) [0..<n] (0, -1)) \<longrightarrow>
            0 \<le> snd (fold (best_match_step qw pws) [0..<n] (0, -1)))"
  using assms
proof (induction n)
  case 0
  show ?case by simp
next
  case (Suc n)
  then show ?case
    using similarity_bounds [of qw "pws ! n"]
    by (auto simp: best_match_step_def Let_def)
qed

lemma best_match_word_bounds:
  "0 \<le> fst (best_match_word qw pws) \<and> fst (best_match_word qw pws) \<le> 1 \<and>
   snd (best_match_word qw pws) < int (length pws) \<and>
   (0 < fst (best_match_word qw pws) \<longrightarrow> 0 \<le> snd (best_match_word qw pws))"
  unfolding best_match_word_def using best_match_word_upto [of "length pws" pws qw] by simp

lemma threshold_pos: "0 < fl (6 / 10)"
  unfolding fl_6_10 by simp

lemma position_term_nonneg:
  assumes "i < length qws" "0 \<le> j" "j < int (length pws)"
  shows "0 \<le> fsub 1 (fdiv (of_int \<bar>int i - j\<bar>) (of_nat (max (length qws) (length pws))))"
proof -
  have "\<bar>int i - j\<bar> \<le> int (max (length qws) (length pws))"
    using assms by auto
  then have "(of_int \<bar>int i - j\<bar> :: rat) \<le> of_int (int (max (length qws) (length pws)))"
    by (simp only: of_int_le_iff)
  then have "(of_int \<bar>int i - j\<bar> :: rat) \<le> of_nat (max (length qws) (length pws))"
    by simp
  then have "0 \<le> fdiv (of_int \<bar>int i - j\<bar>) (of_nat (max (length qws) (length pws))) \<and>
      fdiv (of_int \<bar>int i - j\<bar>) (of_nat (max (length qws) (length pws))) \<le> 1"
    by (intro fdiv_unit_interval) simp_all
  then show ?thesis
    using fsub_unit_interval by blast
qed

lemma order_step_nonneg:
  assumes "i < length qws" "0 \<le> orderScore st"
  shows "0 \<le> orderScore (order_step qws pws i st)"
proof (cases "fst (best_match_word (qws ! i) pws) > fl (6 / 10)")
  case True
  then have "0 < fst (best_match_word (qws ! i) pws)"
    using threshold_pos by simp
  then have "0 \<le> snd (best_match_word (qws ! i) pws)"
      "snd (best_match_word (qws ! i) pws) < int (length pws)"
    using best_match_word_bounds [of "qws ! i" pws] by simp_all
  from position_term_nonneg [OF assms(1) this] assms(2) True show ?thesis
    unfolding order_step_def by (simp add: Let_def case_prod_beta fadd_nonneg)
next
  case False
  with assms(2) show ?thesis
    unfolding order_step_def by (simp add: Let_def case_prod_beta)
qed

lemma order_fold_nonneg:
  assumes "n \<le> length qws" "0 \<le> orderScore st"
  shows "0 \<le> orderScore (fold (order_step qws pws) [0..<n] st)"
  using assms(1)
proof (induction n)
  case 0
  show ?case using assms(2) by simp
next
  case (Suc n)
  then show ?case
    by (simp add: order_step_nonneg)
qed

lemma wordOrder_bounds:
  "0 \<le> calculateWordOrderSimilarity qws pws \<and> calculateWordOrderSimilarity qws pws \<le> 1"
proof -
  let ?st = "fold (order_step qws pws) [0..<length qws]
      \<lparr>matchCount = 0, orderScore = 0, keywordMatches = 0\<rparr>"
  have "0 \<le> orderScore ?st"
    by (rule order_fold_nonneg) simp_all
  then have "0 \<le> (if matchCount ?st > 0 then fdiv (orderScore ?st) (of_nat (matchCount ?st))
      else 0)"
    by (simp add: fdiv_nonneg)
  moreover have "0 \<le> fmul (of_nat (keywordMatches ?st)) (fl (2 / 10))"
    by (intro fmul_nonneg fl_nonneg) simp_all
  ultimately have "0 \<le> fadd
      (if matchCount ?st > 0 then fdiv (orderScore ?st) (of_nat (matchCount ?st)) else 0)
      (fmul (of_nat (keywordMatches ?st)) (fl (2 / 10)))"
    by (rule fadd_nonneg)
  then show ?thesis
    unfolding calculateWordOrderSimilarity_def by (simp add: Let_def)
qed

lemma patternScore_closed_form:
  "patternScore nq qws pattern =
     fdiv
       (fadd
          (fadd
             (fadd (fmul (if nq = toLowerCase pattern then 1 else 0) 1)
                (fmul (fdiv (fold (\<lambda>x total. fadd total x)
                               (map (\<lambda>qw. bestWordScore qw (words_of (toLowerCase pattern))) qws) 0)
                         (of_nat (length qws)))
                   (fl (7 / 10))))
             (fmul (calculateWordOrderSimilarity qws (words_of (toLowerCase pattern)))
                (fl (6 / 10))))
          (fmul (fdiv (of_nat (length (filter
                         (\<lambda>qw. bestWordScore qw (words_of (toLowerCase pattern)) > fl (6 / 10))
                         qws)))
                   (of_nat (max (length qws) (length (words_of (toLowerCase pattern))))))
             (fl (9 / 10))))
       (fl (32 / 10))"
  unfolding patternScore_def by (simp add: Let_def fold_word_step)

lemma weights_value:
  "fdiv (fadd (fadd (fadd 1 (fl (fl (7 / 10)))) (fl (fl (6 / 10)))) (fl (fl (9 / 10))))
     (fl (32 / 10))
     = 9007199254740991 / 9007199254740992"
proof -
  have s1: "fl (7 / 10) = 3152519739159347 / 4503599627370496"
    by (rule fl_evalI [where e = "-1" and m = 6305039478318694]) simp_all
  have s2: "fl (3152519739159347 / 4503599627370496) = 3152519739159347 / 4503599627370496"
    by (rule fl_evalI [where e = "-1" and m = 6305039478318694]) simp_all
  have s3: "fadd 1 (3152519739159347 / 4503599627370496) = 7656119366529843 / 4503599627370496"
    unfolding fadd_def by (rule fl_evalI [where e = "0" and m = 7656119366529843]) simp_all
  have s4: "fl (6 / 10) = 5404319552844595 / 9007199254740992"
    by (rule fl_evalI [where e = "-1" and m = 5404319552844595]) simp_all
  have s5: "fl (5404319552844595 / 9007199254740992) = 5404319552844595 / 9007199254740992"
    by (rule fl_evalI [where e = "-1" and m = 5404319552844595]) simp_all
  have s6: "fadd (7656119366529843 / 4503599627370496) (5404319552844595 / 9007199254740992)
      = 2589569785738035 / 1125899906842624"
    unfolding fadd_def by (rule fl_evalI [where e = "1" and m = 5179139571476070]) simp_all
  have s7: "fl (9 / 10) = 8106479329266893 / 9007199254740992"
    by (rule fl_evalI [where e = "-1" and m = 8106479329266893]) simp_all
  have s8: "fl (8106479329266893 / 9007199254740992) = 8106479329266893 / 9007199254740992"
    by (rule fl_evalI [where e = "-1" and m = 8106479329266893]) simp_all
  have s9: "fadd (2589569785738035 / 1125899906842624) (8106479329266893 / 9007199254740992)
      = 7205759403792793 / 2251799813685248"
    unfolding fadd_def by (rule fl_evalI [where e = "1" and m = 7205759403792793]) simp_all
  have s10: "fl (32 / 10) = 3602879701896397 / 1125899906842624"
    by (rule fl_evalI [where e = "1" and m = 7205759403792794]) simp_all
  have s11: "fdiv (7205759403792793 / 2251799813685248) (3602879701896397 / 1125899906842624)
      = 9007199254740991 / 9007199254740992"
    unfolding fdiv_def by (rule fl_evalI [where e = "-1" and m = 9007199254740991]) simp_all
  show ?thesis
    by (simp only: s1 s2 s3 s4 s5 s6 s7 s8 s9 s10 s11)
qed

lemma weights_sum:
  "fdiv (fadd (fadd (fadd 1 (fl (fl (7 / 10)))) (fl (fl (6 / 10)))) (fl (fl (9 / 10))))
     (fl (32 / 10)) \<le> 1"
  "0 < fl (32 / 10)" "0 \<le> fl (7 / 10)" "0 \<le> fl (6 / 10)" "0 \<le> fl (9 / 10)"
proof -
  show "fdiv (fadd (fadd (fadd 1 (fl (fl (7 / 10)))) (fl (fl (6 / 10)))) (fl (fl (9 / 10))))
     (fl (32 / 10)) \<le> 1"
    unfolding weights_value by simp
  show "0 < fl (32 / 10)"
    unfolding fl_32_10 by simp
qed (simp_all add: fl_nonneg)

lemma weighted_bounds:
  fixes e w ord c :: rat
  assumes "0 \<le> e" "e \<le> 1" "0 \<le> w" "w \<le> 1" "0 \<le> ord" "ord \<le> 1" "0 \<le> c" "c \<le> 1"
  shows "0 \<le> fdiv (fadd (fadd (fadd (fmul e 1) (fmul w (fl (7 / 10))))
                          (fmul ord (fl (6 / 10)))) (fmul c (fl (9 / 10)))) (fl (32 / 10)) \<and>
         fdiv (fadd (fadd (fadd (fmul e 1) (fmul w (fl (7 / 10))))
                      (fmul ord (fl (6 / 10)))) (fmul c (fl (9 / 10)))) (fl (32 / 10)) \<le> 1"
proof -
  have a1: "0 \<le> fmul e 1" "fmul e 1 \<le> 1"
    using assms(1,2) fmul_le [of e 1] by (simp_all add: fmul_nonneg)
  have a2: "0 \<le> fmul w (fl (7 / 10))" "fmul w (fl (7 / 10)) \<le> fl (fl (7 / 10))"
    using assms(3,4) weights_sum(3) by (simp_all add: fmul_nonneg fmul_le)
  have a3: "0 \<le> fmul ord (fl (6 / 10))" "fmul ord (fl (6 / 10)) \<le> fl (fl (6 / 10))"
    using assms(5,6) weights_sum(4) by (simp_all add: fmul_nonneg fmul_le)
  have a4: "0 \<le> fmul c (fl (9 / 10))" "fmul c (fl (9 / 10)) \<le> fl (fl (9 / 10))"
    using assms(7,8) weights_sum(5) by (simp_all add: fmul_nonneg fmul_le)
  have s1: "0 \<le> fadd (fmul e 1) (fmul w (fl (7 / 10)))"
      "fadd (fmul e 1) (fmul w (fl (7 / 10))) \<le> fadd 1 (fl (fl (7 / 10)))"
    using a1 a2 by (simp_all add: fadd_nonneg fadd_mono)
  have s2: "0 \<le> fadd (fadd (fmul e 1) (fmul w (fl (7 / 10)))) (fmul ord (fl (6 / 10)))"
      "fadd (fadd (fmul e 1) (fmul w (fl (7 / 10)))) (fmul ord (fl (6 / 10)))
        \<le> fadd (fadd 1 (fl (fl (7 / 10)))) (fl (fl (6 / 10)))"
    using s1 a3 by (simp_all add: fadd_nonneg fadd_mono)
  have s3: "0 \<le> fadd (fadd (fadd (fmul e 1) (fmul w (fl (7 / 10)))) (fmul ord (fl (6 / 10))))
        (fmul c (fl (9 / 10)))"
      "fadd (fadd (fadd (fmul e 1) (fmul w (fl (7 / 10)))) (fmul ord (fl (6 / 10))))
        (fmul c (fl (9 / 10)))
        \<le> fadd (fadd (fadd 1 (fl (fl (7 / 10)))) (fl (fl (6 / 10)))) (fl (fl (9 / 10)))"
    using s2 a4 by (simp_all add: fadd_nonneg fadd_mono)
  have "fdiv (fadd (fadd (fadd (fmul e 1) (fmul w (fl (7 / 10)))) (fmul ord (fl (6 / 10))))
        (fmul c (fl (9 / 10)))) (fl (32 / 10))
      \<le> fdiv (fadd (fadd (fadd 1 (fl (fl (7 / 10)))) (fl (fl (6 / 10)))) (fl (fl (9 / 10))))
          (fl (32 / 10))"
    using s3 weights_sum(2) by (intro fdiv_mono)
  then have "fdiv (fadd (fadd (fadd (fmul e 1) (fmul w (fl (7 / 10))))
        (fmul ord (fl (6 / 10)))) (fmul c (fl (9 / 10)))) (fl (32 / 10)) \<le> 1"
    using weights_sum(1) by (rule order_trans)
  moreover have "0 \<le> fdiv (fadd (fadd (fadd (fmul e 1) (fmul w (fl (7 / 10))))
        (fmul ord (fl (6 / 10)))) (fmul c (fl (9 / 10)))) (fl (32 / 10))"
    using s3(1) weights_sum(2) by (intro fdiv_nonneg) simp_all
  ultimately show ?thesis by simp
qed

lemma patternScore_bounds:
  assumes "qws \<noteq> []"
  shows "0 \<le> patternScore nq qws pattern \<and> patternScore nq qws pattern \<le> 1"
proof -
  define pws where "pws = words_of (toLowerCase pattern)"
  define bests where "bests = map (\<lambda>qw. bestWordScore qw pws) qws"
  define cnt where "cnt = length (filter (\<lambda>qw. bestWordScore qw pws > fl (6 / 10)) qws)"
  have "\<forall>x \<in> set bests. 0 \<le> x \<and> x \<le> 1"
    unfolding bests_def using bestWordScore_bounds by auto
  from average_bounds [OF this]
  have w: "0 \<le> fdiv (fold (\<lambda>x total. fadd total x) bests 0) (of_nat (length qws))"
      "fdiv (fold (\<lambda>x total. fadd total x) bests 0) (of_nat (length qws)) \<le> 1"
    unfolding bests_def by simp_all
  have "cnt \<le> length qws"
    unfolding cnt_def by (rule length_filter_le)
  then have "cnt \<le> max (length qws) (length pws)"
    by simp
  then have "(of_nat cnt :: rat) \<le> of_nat (max (length qws) (length pws))"
    by (simp only: of_nat_le_iff)
  then have "0 \<le> fdiv (of_nat cnt) (of_nat (max (length qws) (length pws))) \<and>
      fdiv (of_nat cnt) (of_nat (max (length qws) (length pws))) \<le> 1"
    by (intro fdiv_unit_interval) simp_all
  then have c: "0 \<le> fdiv (of_nat cnt) (of_nat (max (length qws) (length pws)))"
      "fdiv (of_nat cnt) (of_nat (max (length qws) (length pws))) \<le> 1"
    by simp_all
  have e: "(0::rat) \<le> (if nq = toLowerCase pattern then 1 else 0)"
      "(if nq = toLowerCase pattern then 1 else 0) \<le> (1::rat)"
    by simp_all
  have ord: "0 \<le> calculateWordOrderSimilarity qws pws"
      "calculateWordOrderSimilarity qws pws \<le> 1"
    using wordOrder_bounds [of qws pws] by simp_all
  show ?thesis
    unfolding patternScore_closed_form pws_def [symmetric] bests_def [symmetric]
      cnt_def [symmetric]
    by (rule weighted_bounds [OF e w ord c])
qed

lemma intentScore_nonneg: "0 \<le> intentScore nq qws patterns"
proof -
  have "0 \<le> b \<Longrightarrow> 0 \<le> fold (\<lambda>pattern score.
      if \<not> is_string pattern then score
      else max score (patternScore nq qws (chars pattern))) patterns b" for b
    by (induction patterns arbitrary: b) (auto simp: max_def)
  then show ?thesis
    unfolding intentScore_def by simp
qed

lemma intentScore_le_1:
  assumes "qws \<noteq> []"
  shows "intentScore nq qws patterns \<le> 1"
proof -
  have "b \<le> 1 \<Longrightarrow> fold (\<lambda>pattern score.
      if \<not> is_string pattern then score
      else max score (patternScore nq qws (chars pattern))) patterns b \<le> 1" for b
    using patternScore_bounds [OF assms, of nq]
    by (induction patterns arbitrary: b) (auto simp: max_def)
  then show ?thesis
    unfolding intentScore_def by simp
qed

lemma match_intents_bounds:
  assumes "qws \<noteq> []" "match_intents nq qws es bm = Inr bm'"
    and "0 \<le> match_score bm" "match_score bm \<le> 1"
  shows "0 \<le> match_score bm' \<and> match_score bm' \<le> 1"
  using assms(2-)
proof (induction es arbitrary: bm)
  case Nil
  then show ?case by simp
next
  case (Cons e es)
  let ?score = "intentScore nq qws (elements (get_prop e ''patterns''))"
  let ?bm = "if ?score > match_score bm
      then \<lparr>match_intent = e, match_score = ?score\<rparr> else bm"
  have bm: "0 \<le> match_score ?bm \<and> match_score ?bm \<le> 1"
    using Cons.prems(2,3) intentScore_nonneg [of nq qws] intentScore_le_1 [OF assms(1), of nq]
    by simp
  from Cons.prems(1) have "match_intents nq qws es bm = Inr bm' \<or>
      match_intents nq qws es ?bm = Inr bm'"
    by (simp add: Let_def split: if_splits)
  then show ?case
    using Cons.IH [of bm] Cons.IH [of ?bm] Cons.prems(2,3) bm by blast
qed

lemma find_best_match_bounds:
  assumes "find_best_match q s = Inr (Some bm)"
  shows "0 \<le> match_score bm \<and> match_score bm \<le> 1"
proof -
  let ?nq = "trim (toLowerCase (chars q))"
  from assms have nq: "?nq \<noteq> []"
    and m: "match_intents ?nq (words_of ?nq) (elements (intents s))
        \<lparr>match_intent = JNull, match_score = 0\<rparr> = Inr bm"
    unfolding find_best_match_def by (simp_all add: Let_def split: if_splits sum.splits)
  have "words_of ?nq \<noteq> []"
    using nq by (rule words_of_trim_nonempty)
  from match_intents_bounds [OF this m] show ?thesis
    by simp
qed

subsection \<open>The small catalog, evaluated\<close>

lemma lower_cuts_pattern: "toLowerCase ''How to cure Cuts?'' = ''how to cure cuts?''"
  by code_simp

lemma words_cuts_pattern:
  "words_of ''how to cure cuts?'' = [''how'', ''to'', ''cure'', ''cuts?'']"
  by code_simp

lemma similarity_4_of_5:
  "fsub 1 (fdiv 4 5)
     = 900719925474099 / 4503599627370496"
proof -
  have s1: "fdiv 4 5 = 3602879701896397 / 4503599627370496"
    unfolding fdiv_def by (rule fl_evalI [where e = "-1" and m = 7205759403792794]) simp_all
  have s2: "fsub 1 (3602879701896397 / 4503599627370496) = 900719925474099 / 4503599627370496"
    unfolding fsub_def by (rule fl_evalI [where e = "-3" and m = 7205759403792792]) simp_all
  show ?thesis
    by (simp only: s1 s2)
qed

lemma similarity_3_of_5:
  "fsub 1 (fdiv 3 5)
     = 3602879701896397 / 9007199254740992"
proof -
  have s1: "fdiv 3 5 = 5404319552844595 / 9007199254740992"
    unfolding fdiv_def by (rule fl_evalI [where e = "-1" and m = 5404319552844595]) simp_all
  have s2: "fsub 1 (5404319552844595 / 9007199254740992) = 3602879701896397 / 9007199254740992"
    unfolding fsub_def by (rule fl_evalI [where e = "-2" and m = 7205759403792794]) simp_all
  show ?thesis
    by (simp only: s1 s2)
qed

lemma word_order_value_cuts:
  "fadd (fdiv (fadd 0 (fsub 1 (fdiv 3 4))) 1) (fmul 1 (fl (2 / 10)))
     = 8106479329266893 / 18014398509481984"
proof -
  have s1: "fdiv 3 4 = 3 / 4"
    unfolding fdiv_def by (rule fl_evalI [where e = "-1" and m = 6755399441055744]) simp_all
  have s2: "fsub 1 (3 / 4) = 1 / 4"
    unfolding fsub_def by (rule fl_evalI [where e = "-2" and m = 4503599627370496]) simp_all
  have s3: "fadd 0 (1 / 4) = 1 / 4"
    unfolding fadd_def by (rule fl_evalI [where e = "-2" and m = 4503599627370496]) simp_all
  have s4: "fdiv (1 / 4) 1 = 1 / 4"
    unfolding fdiv_def by (rule fl_evalI [where e = "-2" and m = 4503599627370496]) simp_all
  have s5: "fl (2 / 10) = 3602879701896397 / 18014398509481984"
    by (rule fl_evalI [where e = "-3" and m = 7205759403792794]) simp_all
  have s6: "fmul 1 (3602879701896397 / 18014398509481984)
      = 3602879701896397 / 18014398509481984"
    unfolding fmul_def by (rule fl_evalI [where e = "-3" and m = 7205759403792794]) simp_all
  have s7: "fadd (1 / 4) (3602879701896397 / 18014398509481984)
      = 8106479329266893 / 18014398509481984"
    unfolding fadd_def by (rule fl_evalI [where e = "-2" and m = 8106479329266893]) simp_all
  show ?thesis
    by (simp only: s1 s2 s3 s4 s5 s6 s7)
qed

lemma weighted_cuts:
  "fdiv (fadd (fadd (fadd (fmul 0 1) (fmul (fdiv 1 1) (fl (7 / 10)))) (fmul
     (8106479329266893 / 18014398509481984) (fl (6 / 10)))) (fmul (fdiv 1 4) (fl (9 /
     10)))) (fl (32 / 10))
     = 3363625971692339 / 9007199254740992"
proof -
  have s1: "fmul 0 1 = 0"
    unfolding fmul_def by simp
  have s2: "fdiv 1 1 = 1"
    unfolding fdiv_def by (rule fl_evalI [where e = "0" and m = 4503599627370496]) simp_all
  have s3: "fl (7 / 10) = 3152519739159347 / 4503599627370496"
    by (rule fl_evalI [where e = "-1" and m = 6305039478318694]) simp_all
  have s4: "fmul 1 (3152519739159347 / 4503599627370496) = 3152519739159347 / 4503599627370496"
    unfolding fmul_def by (rule fl_evalI [where e = "-1" and m = 6305039478318694]) simp_all
  have s5: "fadd 0 (3152519739159347 / 4503599627370496) = 3152519739159347 / 4503599627370496"
    unfolding fadd_def by (rule fl_evalI [where e = "-1" and m = 6305039478318694]) simp_all
  have s6: "fl (6 / 10) = 5404319552844595 / 9007199254740992"
    by (rule fl_evalI [where e = "-1" and m = 5404319552844595]) simp_all
  have s7: "fmul (8106479329266893 / 18014398509481984) (5404319552844595 / 9007199254740992)
      = 607985949695017 / 2251799813685248"
    unfolding fmul_def by (rule fl_evalI [where e = "-2" and m = 4863887597560136]) simp_all
  have s8: "fadd (3152519739159347 / 4503599627370496) (607985949695017 / 2251799813685248)
      = 4368491638549381 / 4503599627370496"
    unfolding fadd_def by (rule fl_evalI [where e = "-1" and m = 8736983277098762]) simp_all
  have s9: "fdiv 1 4 = 1 / 4"
    unfolding fdiv_def by (rule fl_evalI [where e = "-2" and m = 4503599627370496]) simp_all
  have s10: "fl (9 / 10) = 8106479329266893 / 9007199254740992"
    by (rule fl_evalI [where e = "-1" and m = 8106479329266893]) simp_all
  have s11: "fmul (1 / 4) (8106479329266893 / 9007199254740992)
      = 8106479329266893 / 36028797018963968"
    unfolding fmul_def by (rule fl_evalI [where e = "-3" and m = 8106479329266893]) simp_all
  have s12: "fadd (4368491638549381 / 4503599627370496) (8106479329266893 / 36028797018963968)
      = 5381801554707743 / 4503599627370496"
    unfolding fadd_def by (rule fl_evalI [where e = "0" and m = 5381801554707743]) simp_all
  have s13: "fl (32 / 10) = 3602879701896397 / 1125899906842624"
    by (rule fl_evalI [where e = "1" and m = 7205759403792794]) simp_all
  have s14: "fdiv (5381801554707743 / 4503599627370496) (3602879701896397 / 1125899906842624)
      = 3363625971692339 / 9007199254740992"
    unfolding fdiv_def by (rule fl_evalI [where e = "-2" and m = 6727251943384678]) simp_all
  show ?thesis
    by (simp only: s1 s2 s3 s4 s5 s6 s7 s8 s9 s10 s11 s12 s13 s14)
qed

lemma similarity_cuts:
  "calculateStringSimilarity ''cuts?'' ''how'' = 0"
  "calculateStringSimilarity ''cuts?'' ''to'' = 900719925474099 / 4503599627370496"
  "calculateStringSimilarity ''cuts?'' ''cure'' = 3602879701896397 / 9007199254740992"
  "calculateStringSimilarity ''cuts?'' ''cuts?'' = 1"
  unfolding similarity_4_of_5 [symmetric] similarity_3_of_5 [symmetric]
  by (simp_all add: calculateStringSimilarity_def levenshtein_lev fsub_def fdiv_def)

lemma bestWordScore_cuts:
  "bestWordScore ''cuts?'' [''how'', ''to'', ''cure'', ''cuts?''] = 1"
  by (simp add: bestWordScore_def similarity_cuts)

lemma best_match_word_cuts:
  "best_match_word ''cuts?'' [''how'', ''to'', ''cure'', ''cuts?''] = (1, 3)"
  by (simp add: best_match_word_def best_match_step_def similarity_cuts)

lemma keyword_cuts: "has_medical_keyword ''cuts?'' ''cuts?''"
  by code_simp

lemma word_order_cuts:
  "calculateWordOrderSimilarity [''cuts?''] [''how'', ''to'', ''cure'', ''cuts?'']
     = 8106479329266893 / 18014398509481984"
proof -
  have "calculateWordOrderSimilarity [''cuts?''] [''how'', ''to'', ''cure'', ''cuts?'']
      = min 1 (fadd (fdiv (fadd 0 (fsub 1 (fdiv 3 4))) 1) (fmul 1 (fl (2 / 10))))"
    by (simp add: calculateWordOrderSimilarity_def order_step_def best_match_word_cuts
        keyword_cuts fl_6_10 fl_3_5)
  then show ?thesis
    unfolding word_order_value_cuts by simp
qed

lemma word_step_cuts:
  "word_step [''how'', ''to'', ''cure'', ''cuts?''] ''cuts?'' (0, 0) = (1, 1)"
  by (simp add: word_step_def bestWordScore_cuts fl_6_10 fl_3_5 fadd_def)

lemma patternScore_cuts:
  "patternScore ''cuts?'' [''cuts?''] ''How to cure Cuts?''
     = 3363625971692339 / 9007199254740992"
  unfolding weighted_cuts [symmetric]
  by (simp add: patternScore_def lower_cuts_pattern words_cuts_pattern word_order_cuts
      word_step_cuts)

lemma normalized_cuts: "trim (toLowerCase ''Cuts?'') = ''cuts?''"
  by code_simp

lemma words_cuts: "words_of ''cuts?'' = [''cuts?'']"
  by code_simp

lemma find_best_match_cuts:
  "find_best_match (JStr ''Cuts?'') sample_service =
     Inr (Some \<lparr>match_intent = cuts_intent,
       match_score = 3363625971692339 / 9007199254740992\<rparr>)"
proof -
  have "intentScore ''cuts?'' [''cuts?''] [JStr ''How to cure Cuts?'']
      = 3363625971692339 / 9007199254740992"
    by (simp add: intentScore_def patternScore_cuts)
  then have "match_intents ''cuts?'' [''cuts?''] [cuts_intent]
      \<lparr>match_intent = JNull, match_score = 0\<rparr>
      = Inr \<lparr>match_intent = cuts_intent,
          match_score = 3363625971692339 / 9007199254740992\<rparr>"
    by (simp add: cuts_intent_def)
  then show ?thesis
    by (simp add: find_best_match_def sample_service_def normalized_cuts words_cuts)
qed

lemma findMatchingIntent_cuts:
  "findMatchingIntent (JStr ''Cuts?'') sample_service = Inr cuts_intent"
  by (simp add: findMatchingIntent_def find_best_match_cuts fl_25_100 fl_1_4)

lemma responses_cuts:
  "get_prop cuts_intent ''responses'' = JArr [JStr ''Wash the cut properly'', JStr '' '']"
  "get_prop cuts_intent ''tag'' = JStr ''Cuts''"
  "truthy cuts_intent"
  by (simp_all add: cuts_intent_def)

lemma blank_response: "trim '' '' = []" "trim ''Wash the cut properly'' \<noteq> []"
  by (simp_all add: trim_def is_whitespace_def)

subsection \<open>The scores are between 0 and 1\<close>

text \<open>
  Claim C7. The score of the best match that the resolver computes is in the interval
  from 0 to 1, and so is the score of every pattern, for a query of at least one word.
  The scores are the doubles that the code computes: every operation of the scorer is
  rounded to the nearest double, and rounding is monotone and keeps 0 and 1.
\<close>

theorem match_score_in_unit_interval:
  "(find_best_match q s = Inr (Some bm) \<longrightarrow> 0 \<le> match_score bm \<and> match_score bm \<le> 1) \<and>
   (queryWords \<noteq> [] \<longrightarrow>
      0 \<le> patternScore normalizedQuery queryWords pattern \<and>
      patternScore normalizedQuery queryWords pattern \<le> 1)"
  using find_best_match_bounds patternScore_bounds by blast

theorem match_score_in_unit_interval_witness:
  "find_best_match (JStr ''Cuts?'') sample_service =
     Inr (Some \<lparr>match_intent = cuts_intent,
       match_score = 3363625971692339 / 9007199254740992\<rparr>) \<and>
   [''cuts?''] \<noteq> [] \<and>
   0 \<le> patternScore ''cuts?'' [''cuts?''] ''How to cure Cuts?'' \<and>
   patternScore ''cuts?'' [''cuts?''] ''How to cure Cuts?'' \<le> 1 \<and>
   (0::rat) \<le> 3363625971692339 / 9007199254740992 \<and>
   (3363625971692339 / 9007199254740992 :: rat) \<le> 1"
proof -
  note t = match_score_in_unit_interval [of "JStr ''Cuts?''" sample_service
      "\<lparr>match_intent = cuts_intent, match_score = 3363625971692339 / 9007199254740992\<rparr>"
      "[''cuts?'']" "''cuts?''" "''How to cure Cuts?''"]
  have "0 \<le> match_score \<lparr>match_intent = cuts_intent,
        match_score = 3363625971692339 / 9007199254740992\<rparr> \<and>
      match_score \<lparr>match_intent = cuts_intent,
        match_score = 3363625971692339 / 9007199254740992\<rparr> \<le> 1"
    using t [THEN conjunct1] find_best_match_cuts by (rule mp)
  moreover have "0 \<le> patternScore ''cuts?'' [''cuts?''] ''How to cure Cuts?'' \<and>
      patternScore ''cuts?'' [''cuts?''] ''How to cure Cuts?'' \<le> 1"
    using t [THEN conjunct2] by simp
  ultimately show ?thesis
    using find_best_match_cuts by simp
qed

subsection \<open>The other catalogs, evaluated\<close>

lemma lower_plain: "toLowerCase ''cuts'' = ''cuts''" "toLowerCase ''cuts '' = ''cuts ''"
  by code_simp+

lemma words_plain: "words_of ''cuts'' = [''cuts'']" "words_of ''cuts '' = [''cuts'']"
  by code_simp+


lemma similarity_plain: "calculateStringSimilarity ''cuts'' ''cuts'' = 1"
  by (simp add: similarity_same)

lemma bestWordScore_plain: "bestWordScore ''cuts'' [''cuts''] = 1"
  by (simp add: bestWordScore_def similarity_plain)

lemma best_match_word_plain: "best_match_word ''cuts'' [''cuts''] = (1, 0)"
  by (simp add: best_match_word_def best_match_step_def similarity_plain)

lemma keyword_plain: "has_medical_keyword ''cuts'' ''cuts''"
  by code_simp

lemma word_order_value_same:
  "fadd (fdiv (fadd 0 (fsub 1 (fdiv 0 1))) 1) (fmul 1 (fl (2 / 10)))
     = 5404319552844595 / 4503599627370496"
proof -
  have s1: "fdiv 0 1 = 0"
    unfolding fdiv_def by simp
  have s2: "fsub 1 0 = 1"
    unfolding fsub_def by (rule fl_evalI [where e = "0" and m = 4503599627370496]) simp_all
  have s3: "fadd 0 1 = 1"
    unfolding fadd_def by (rule fl_evalI [where e = "0" and m = 4503599627370496]) simp_all
  have s4: "fdiv 1 1 = 1"
    unfolding fdiv_def by (rule fl_evalI [where e = "0" and m = 4503599627370496]) simp_all
  have s5: "fl (2 / 10) = 3602879701896397 / 18014398509481984"
    by (rule fl_evalI [where e = "-3" and m = 7205759403792794]) simp_all
  have s6: "fmul 1 (3602879701896397 / 18014398509481984)
      = 3602879701896397 / 18014398509481984"
    unfolding fmul_def by (rule fl_evalI [where e = "-3" and m = 7205759403792794]) simp_all
  have s7: "fadd 1 (3602879701896397 / 18014398509481984)
      = 5404319552844595 / 4503599627370496"
    unfolding fadd_def by (rule fl_evalI [where e = "0" and m = 5404319552844595]) simp_all
  show ?thesis
    by (simp only: s1 s2 s3 s4 s5 s6 s7)
qed

lemma word_order_plain: "calculateWordOrderSimilarity [''cuts''] [''cuts''] = 1"
proof -
  have "calculateWordOrderSimilarity [''cuts''] [''cuts'']
      = min 1 (fadd (fdiv (fadd 0 (fsub 1 (fdiv 0 1))) 1) (fmul 1 (fl (2 / 10))))"
    by (simp add: calculateWordOrderSimilarity_def order_step_def best_match_word_plain
        keyword_plain fl_6_10 fl_3_5)
  then show ?thesis
    unfolding word_order_value_same by simp
qed

lemma word_step_plain: "word_step [''cuts''] ''cuts'' (0, 0) = (1, 1)"
  by (simp add: word_step_def bestWordScore_plain fl_6_10 fl_3_5 fadd_def)


lemma weighted_spaced:
  "fdiv (fadd (fadd (fadd (fmul 0 1) (fmul (fdiv 1 1) (fl (7 / 10)))) (fmul 1 (fl (6 /
     10)))) (fmul (fdiv 1 1) (fl (9 / 10)))) (fl (32 / 10))
     = 6192449487634431 / 9007199254740992"
proof -
  have s1: "fmul 0 1 = 0"
    unfolding fmul_def by simp
  have s2: "fdiv 1 1 = 1"
    unfolding fdiv_def by (rule fl_evalI [where e = "0" and m = 4503599627370496]) simp_all
  have s3: "fl (7 / 10) = 3152519739159347 / 4503599627370496"
    by (rule fl_evalI [where e = "-1" and m = 6305039478318694]) simp_all
  have s4: "fmul 1 (3152519739159347 / 4503599627370496) = 3152519739159347 / 4503599627370496"
    unfolding fmul_def by (rule fl_evalI [where e = "-1" and m = 6305039478318694]) simp_all
  have s5: "fadd 0 (3152519739159347 / 4503599627370496) = 3152519739159347 / 4503599627370496"
    unfolding fadd_def by (rule fl_evalI [where e = "-1" and m = 6305039478318694]) simp_all
  have s6: "fl (6 / 10) = 5404319552844595 / 9007199254740992"
    by (rule fl_evalI [where e = "-1" and m = 5404319552844595]) simp_all
  have s7: "fmul 1 (5404319552844595 / 9007199254740992) = 5404319552844595 / 9007199254740992"
    unfolding fmul_def by (rule fl_evalI [where e = "-1" and m = 5404319552844595]) simp_all
  have s8: "fadd (3152519739159347 / 4503599627370496) (5404319552844595 / 9007199254740992)
      = 1463669878895411 / 1125899906842624"
    unfolding fadd_def by (rule fl_evalI [where e = "0" and m = 5854679515581644]) simp_all
  have s9: "fl (9 / 10) = 8106479329266893 / 9007199254740992"
    by (rule fl_evalI [where e = "-1" and m = 8106479329266893]) simp_all
  have s10: "fmul 1 (8106479329266893 / 9007199254740992) = 8106479329266893 / 9007199254740992"
    unfolding fmul_def by (rule fl_evalI [where e = "-1" and m = 8106479329266893]) simp_all
  have s11: "fadd (1463669878895411 / 1125899906842624) (8106479329266893 / 9007199254740992)
      = 4953959590107545 / 2251799813685248"
    unfolding fadd_def by (rule fl_evalI [where e = "1" and m = 4953959590107545]) simp_all
  have s12: "fl (32 / 10) = 3602879701896397 / 1125899906842624"
    by (rule fl_evalI [where e = "1" and m = 7205759403792794]) simp_all
  have s13: "fdiv (4953959590107545 / 2251799813685248) (3602879701896397 / 1125899906842624)
      = 6192449487634431 / 9007199254740992"
    unfolding fdiv_def by (rule fl_evalI [where e = "-1" and m = 6192449487634431]) simp_all
  show ?thesis
    by (simp only: s1 s2 s3 s4 s5 s6 s7 s8 s9 s10 s11 s12 s13)
qed


lemma patternScore_spaced:
  "patternScore ''cuts'' [''cuts''] ''cuts '' = 6192449487634431 / 9007199254740992"
  unfolding weighted_spaced [symmetric]
  by (simp add: patternScore_def lower_plain words_plain word_order_plain word_step_plain)




lemma fl_1_2: "fl (1 / 2) = 1 / 2"
  by (rule fl_evalI [where e = "-1" and m = 4503599627370496]) simp_all

lemma random_times_7:
  "fmul (2573485501354569 / 4503599627370496) 7
     = 4"
proof -
  have s1: "fmul (2573485501354569 / 4503599627370496) 7 = 4"
    unfolding fmul_def by (rule fl_evalI [where e = "1" and m = 9007199254740992]) simp_all
  show ?thesis
    by (simp only: s1)
qed

lemma randomIndex_rounds_the_product:
  "randomIndex (2573485501354569 / 4503599627370496) 7 = 4"
  "(2573485501354569 / 4503599627370496 :: rat) * 7 < 4"
  unfolding randomIndex_def using random_times_7 by simp_all

subsection \<open>\<open>generateResponse\<close> never raises\<close>



lemma randomIndex_quarter: "randomIndex (1 / 4) 2 = 0"
proof -
  have "\<lfloor>1 / 2 :: rat\<rfloor> = 0"
    by (rule floor_unique) simp_all
  then show ?thesis
    by (simp add: randomIndex_def fmul_def fl_1_2)
qed




subsection \<open>The response that is picked\<close>

text \<open>
  Claim C8, as amended. For a matched intent whose \<open>responses\<close> is a non-empty array,
  \<open>generateResponse\<close> picks the entry at the index \<open>randomIndex\<close>, the floor of the
  double product of the random number and the length, among all the entries, valid or
  not. When the picked entry is a string that is not blank, it is the answer, with no
  error and the tag of the intent; otherwise, and when \<open>responses\<close> is missing, not an
  array or empty, the result is the one of \<open>INTERNAL_ERROR\<close>.
\<close>

theorem generateResponse_selects_response:
  assumes "truthy q" "findMatchingIntent q s = Inr m" "truthy m"
  shows "(\<forall>rs. get_prop m ''responses'' = JArr rs \<and> rs \<noteq> [] \<longrightarrow>
            fst (generateResponse toText q random s) =
              Inr (if is_string (js_nth rs (randomIndex random (length rs)))
                      \<and> trim (chars (js_nth rs (randomIndex random (length rs)))) \<noteq> []
                   then \<lparr>answer = js_nth rs (randomIndex random (length rs)),
                         intent = get_prop m ''tag'', error = JNull\<rparr>
                   else internal_error)) \<and>
         (\<not> truthy (get_prop m ''responses'') \<or> \<not> isArray (get_prop m ''responses'')
            \<or> elements (get_prop m ''responses'') = [] \<longrightarrow>
            fst (generateResponse toText q random s) = Inr internal_error)"
proof -
  have q: "is_string q"
    using assms(1,2) by (rule findMatchingIntent_Inr_string [rotated])
  show ?thesis
  proof (intro conjI allI impI)
    fix rs
    assume rs: "get_prop m ''responses'' = JArr rs \<and> rs \<noteq> []"
    then show "fst (generateResponse toText q random s) =
        Inr (if is_string (js_nth rs (randomIndex random (length rs)))
                \<and> trim (chars (js_nth rs (randomIndex random (length rs)))) \<noteq> []
             then \<lparr>answer = js_nth rs (randomIndex random (length rs)),
                   intent = get_prop m ''tag'', error = JNull\<rparr>
             else internal_error)"
      using generateResponse_picked [OF assms(1) q assms(2,3), of rs toText random] by blast
  next
    assume "\<not> truthy (get_prop m ''responses'') \<or> \<not> isArray (get_prop m ''responses'')
        \<or> elements (get_prop m ''responses'') = []"
    then show "fst (generateResponse toText q random s) = Inr internal_error"
      using assms q by (intro generateResponse_no_responses)
  qed
qed

theorem generateResponse_selects_response_witness:
  "truthy (JStr ''Cuts?'') \<and> findMatchingIntent (JStr ''Cuts?'') sample_service = Inr cuts_intent \<and>
   truthy cuts_intent \<and>
   get_prop cuts_intent ''responses'' = JArr [JStr ''Wash the cut properly'', JStr '' ''] \<and>
   fst (generateResponse chars (JStr ''Cuts?'') (1 / 4) sample_service) =
     Inr \<lparr>answer = JStr ''Wash the cut properly'', intent = JStr ''Cuts'', error = JNull\<rparr> \<and>
   randomIndex (1 / 4) 2 = 0"
proof -
  have a: "truthy (JStr ''Cuts?'')"
    by simp
  note b = findMatchingIntent_cuts
  note c = responses_cuts(3)
  let ?rs = "[JStr ''Wash the cut properly'', JStr '' '']"
  have d: "get_prop cuts_intent ''responses'' = JArr ?rs \<and> ?rs \<noteq> []"
    by (simp add: responses_cuts)
  have "\<forall>rs. get_prop cuts_intent ''responses'' = JArr rs \<and> rs \<noteq> [] \<longrightarrow>
      fst (generateResponse chars (JStr ''Cuts?'') (1 / 4) sample_service) =
        Inr (if is_string (js_nth rs (randomIndex (1 / 4) (length rs)))
                \<and> trim (chars (js_nth rs (randomIndex (1 / 4) (length rs)))) \<noteq> []
             then \<lparr>answer = js_nth rs (randomIndex (1 / 4) (length rs)),
                   intent = get_prop cuts_intent ''tag'', error = JNull\<rparr>
             else internal_error)"
    using generateResponse_selects_response [OF a b c, of chars "1 / 4"] by (rule conjunct1)
  then have e: "fst (generateResponse chars (JStr ''Cuts?'') (1 / 4) sample_service) =
        Inr (if is_string (js_nth ?rs (randomIndex (1 / 4) (length ?rs)))
                \<and> trim (chars (js_nth ?rs (randomIndex (1 / 4) (length ?rs)))) \<noteq> []
             then \<lparr>answer = js_nth ?rs (randomIndex (1 / 4) (length ?rs)),
                   intent = get_prop cuts_intent ''tag'', error = JNull\<rparr>
             else internal_error)"
    using d by blast
  note idx = randomIndex_quarter
  with e have "fst (generateResponse chars (JStr ''Cuts?'') (1 / 4) sample_service) =
      Inr \<lparr>answer = JStr ''Wash the cut properly'', intent = JStr ''Cuts'', error = JNull\<rparr>"
    by (simp add: js_nth_def blank_response responses_cuts numeral_2_eq_2)
  with a b c d idx show ?thesis
    by simp
qed

text \<open>
  The intent \<open>Cuts\<close> has a valid response and a blank one; with \<open>random = 1 / 2\<close> the
  blank one is picked and the result is the one of \<open>INTERNAL_ERROR\<close>.
\<close>

theorem generateResponse_blank_pick_counterexample:
  "findMatchingIntent (JStr ''Cuts?'') sample_service = Inr cuts_intent \<and>
   get_prop cuts_intent ''responses'' = JArr [JStr ''Wash the cut properly'', JStr '' ''] \<and>
   trim ''Wash the cut properly'' \<noteq> [] \<and>
   fst (generateResponse chars (JStr ''Cuts?'') (1 / 2) sample_service) =
     Inr \<lparr>answer = JStr internal_error_answer, intent = JNull,
          error = JStr ''INTERNAL_ERROR''\<rparr>"
proof -
  have "randomIndex (1 / 2) (Suc (Suc 0)) = 1"
    by (simp add: randomIndex_def fmul_def)
  then have "fst (generateResponse chars (JStr ''Cuts?'') (1 / 2) sample_service) =
      Inr internal_error"
    using generateResponse_picked [of "JStr ''Cuts?''" sample_service cuts_intent
        "[JStr ''Wash the cut properly'', JStr '' '']" chars "1 / 2"]
    by (simp add: findMatchingIntent_cuts responses_cuts js_nth_def blank_response)
  then show ?thesis
    by (simp add: findMatchingIntent_cuts responses_cuts blank_response internal_error_def)
qed

end
